theory Spec2Isabelle
  imports Complex_Main
begin


section \<open>Response differ (fallback class of cmdi.py and hpp.py)\<close>

text \<open>
  \<^verbatim>\<open>diffing/responses.py\<close> defines \<^verbatim>\<open>ResponseDiff\<close> only, so the guarded import
  \<^verbatim>\<open>from diffing.responses import ResponseDiffer\<close> of cmdi.py, hpp.py, crlf.py, jsoni.py
  and the XSS modules fails and the fallback class is the one in use:
  \<^verbatim>\<open>def similarity(self, a, b): return 1.0 if a == b else 0.0\<close>.
  The two floats 1.0 and 0.0 are exact, so the result is modelled as a real.
\<close>

definition similarity :: "string \<Rightarrow> string \<Rightarrow> real" where
  "similarity a b = (if a = b then 1 else 0)"

section \<open>Timing analyzer (diffing/timing.py)\<close>

text \<open>
  Python floats are modelled as reals: rounding is not part of the model.
  \<^verbatim>\<open>statistics.mean\<close> and \<^verbatim>\<open>statistics.stdev\<close> are the arithmetic mean and the
  sample standard deviation (divisor \<open>n - 1\<close>); the constructor guards both calls, so
  neither is ever evaluated where the library would raise.
\<close>

definition mean :: "real list \<Rightarrow> real" where
  "mean xs = sum_list xs / real (length xs)"

definition stdev :: "real list \<Rightarrow> real" where
  "stdev xs = sqrt (sum_list (map (\<lambda>x. (x - mean xs)\<^sup>2) xs) / real (length xs - 1))"

record TimingAnalyzer =
  baseline :: "real list"
  baseline_mean :: real
  baseline_std :: real

definition TimingAnalyzer_init :: "real list \<Rightarrow> TimingAnalyzer" where
  "TimingAnalyzer_init baseline_response_times =
     \<lparr> baseline = baseline_response_times,
       baseline_mean = (if baseline_response_times \<noteq> [] then mean baseline_response_times else 0),
       baseline_std = (if length baseline_response_times > 1 then stdev baseline_response_times else 0) \<rparr>"

definition is_delayed :: "TimingAnalyzer \<Rightarrow> real \<Rightarrow> real \<Rightarrow> bool" where
  "is_delayed self response_time threshold =
     (if baseline self = [] then False
      else
        let deviation = \<bar>response_time - baseline_mean self\<bar> in
        if baseline_std self > 0 then deviation > baseline_std self * threshold
        else deviation > threshold)"

section \<open>Strings\<close>

text \<open>
  Python strings are modelled as \<open>string\<close>, one \<open>char\<close> per character (8-bit characters,
  that is Latin-1 text). \<open>SQ\<close> and \<open>DQ\<close> are the single and the double quote, which the
  payload tables use. \<open>upper\<close> is \<^verbatim>\<open>str.upper\<close> on ASCII letters, \<open>join\<close> is
  \<^verbatim>\<open>sep.join(xs)\<close>, \<open>str_int\<close> is \<^verbatim>\<open>str(n)\<close> for an integer, \<open>contains body m\<close> is
  \<^verbatim>\<open>m in body\<close>.
\<close>

definition SQ :: string where "SQ = [CHR 0x27]"

definition DQ :: string where "DQ = [CHR 0x22]"

definition fold_case :: "char \<Rightarrow> nat" where
  "fold_case c = (let n = (of_char c :: nat) in if 65 \<le> n \<and> n \<le> 90 then n + 32 else n)"

definition ascii_upper :: "char \<Rightarrow> char" where
  "ascii_upper c = (let n = (of_char c :: nat) in if 97 \<le> n \<and> n \<le> 122 then char_of (n - 32) else c)"

definition upper :: "string \<Rightarrow> string" where
  "upper s = map ascii_upper s"

fun join :: "string \<Rightarrow> string list \<Rightarrow> string" where
  "join sep [] = []"
| "join sep [x] = x"
| "join sep (x # y # ys) = x @ sep @ join sep (y # ys)"

definition digit_char :: "nat \<Rightarrow> char" where
  "digit_char d = char_of (48 + d)"

fun str_nat :: "nat \<Rightarrow> string" where
  "str_nat n = (if n < 10 then [digit_char n] else str_nat (n div 10) @ [digit_char (n mod 10)])"

declare str_nat.simps [simp del]

definition str_int :: "int \<Rightarrow> string" where
  "str_int i = (if i < 0 then CHR ''-'' # str_nat (nat (- i)) else str_nat (nat i))"

fun is_prefix :: "string \<Rightarrow> string \<Rightarrow> bool" where
  "is_prefix [] s = True"
| "is_prefix (x # xs) [] = False"
| "is_prefix (x # xs) (y # ys) = (x = y \<and> is_prefix xs ys)"

fun contains :: "string \<Rightarrow> string \<Rightarrow> bool" where
  "contains [] m = (m = [])"
| "contains (c # cs) m = (is_prefix m (c # cs) \<or> contains cs m)"

section \<open>Regular expressions of the fingerprint tables\<close>

text \<open>
  \<^verbatim>\<open>DB_ERROR_RE\<close> and \<^verbatim>\<open>MONGO_HINTS_RE\<close> are alternations of patterns, each a sequence of
  single-character atoms (a literal, \<^verbatim>\<open>.\<close>, \<^verbatim>\<open>\s\<close>, \<^verbatim>\<open>\d\<close>) under a quantifier (none,
  \<^verbatim>\<open>?\<close>, \<^verbatim>\<open>*\<close>, \<^verbatim>\<open>+\<close>, \<^verbatim>\<open>{n}\<close>). \<open>match_here\<close> is the backtracking matcher of
  \<^verbatim>\<open>re\<close> on such a sequence at a fixed start: quantifiers are greedy and give back one
  character at a time; the result is the matched text (\<^verbatim>\<open>m.group(0)\<close>). \<open>re_search\<close> is
  \<^verbatim>\<open>search\<close>: the leftmost start position wins, and at one position the first alternative
  that matches. Both tables are compiled with \<^verbatim>\<open>re.IGNORECASE\<close>, so a literal matches
  either case of an ASCII letter; \<^verbatim>\<open>.\<close> matches everything but a newline.
\<close>

datatype atom = Lit char | AnyChar | Space | Digit

datatype quant = One | Opt | Star | Plus | Rep nat

type_synonym regex = "(atom \<times> quant) list"

definition is_space :: "char \<Rightarrow> bool" where
  "is_space c = (let n = (of_char c :: nat) in (9 \<le> n \<and> n \<le> 13) \<or> (28 \<le> n \<and> n \<le> 32) \<or> n = 133 \<or> n = 160)"

definition is_digit :: "char \<Rightarrow> bool" where
  "is_digit c = (let n = (of_char c :: nat) in 48 \<le> n \<and> n \<le> 57)"

fun atom_matches :: "atom \<Rightarrow> char \<Rightarrow> bool" where
  "atom_matches (Lit c) x = (fold_case x = fold_case c)"
| "atom_matches AnyChar x = (x \<noteq> CHR 0x0A)"
| "atom_matches Space x = is_space x"
| "atom_matches Digit x = is_digit x"

fun match_here :: "regex \<Rightarrow> string \<Rightarrow> string option" where
  "match_here [] s = Some []"
| "match_here ((a, One) # r) [] = None"
| "match_here ((a, One) # r) (x # xs) =
     (if atom_matches a x then map_option (Cons x) (match_here r xs) else None)"
| "match_here ((a, Opt) # r) [] = match_here r []"
| "match_here ((a, Opt) # r) (x # xs) =
     (if atom_matches a x
      then (case match_here r xs of Some m \<Rightarrow> Some (x # m) | None \<Rightarrow> match_here r (x # xs))
      else match_here r (x # xs))"
| "match_here ((a, Star) # r) [] = match_here r []"
| "match_here ((a, Star) # r) (x # xs) =
     (if atom_matches a x
      then (case match_here ((a, Star) # r) xs of Some m \<Rightarrow> Some (x # m) | None \<Rightarrow> match_here r (x # xs))
      else match_here r (x # xs))"
| "match_here ((a, Plus) # r) [] = None"
| "match_here ((a, Plus) # r) (x # xs) =
     (if atom_matches a x then map_option (Cons x) (match_here ((a, Star) # r) xs) else None)"
| "match_here ((a, Rep 0) # r) s = match_here r s"
| "match_here ((a, Rep (Suc n)) # r) [] = None"
| "match_here ((a, Rep (Suc n)) # r) (x # xs) =
     (if atom_matches a x then map_option (Cons x) (match_here ((a, Rep n) # r) xs) else None)"

fun match_alternatives :: "regex list \<Rightarrow> string \<Rightarrow> string option" where
  "match_alternatives [] s = None"
| "match_alternatives (r # rs) s =
     (case match_here r s of Some m \<Rightarrow> Some m | None \<Rightarrow> match_alternatives rs s)"

fun re_search :: "regex list \<Rightarrow> string \<Rightarrow> string option" where
  "re_search rs [] = match_alternatives rs []"
| "re_search rs (x # xs) =
     (case match_alternatives rs (x # xs) of Some m \<Rightarrow> Some m | None \<Rightarrow> re_search rs xs)"

definition lit :: "string \<Rightarrow> regex" where
  "lit s = map (\<lambda>c. (Lit c, One)) s"

definition DB_ERRORS :: "regex list" where
  "DB_ERRORS =
   [ lit ''SQL syntax'' @ [(AnyChar, Star)] @ lit ''MySQL'',
     lit ''Warning: mysql'' @ [(Lit CHR ''i'', Opt)] @ lit ''::'',
     lit ''MySQL server version for the right syntax'',
     lit (''Unknown column '' @ SQ) @ [(AnyChar, Star)] @ lit (SQ @ '' in '' @ SQ @ ''field list'' @ SQ),
     lit ''PG::SyntaxError'',
     lit ''psql: error'',
     lit ''ERROR:'' @ [(Space, Plus)] @ lit ''syntax error at or near'',
     lit ''invalid input syntax for type'',
     lit ''Unclosed quotation mark after the character string'',
     lit ''SQL Server'' @ [(AnyChar, Star)] @ lit ''Driver'',
     lit ''Microsoft OLE DB Provider for SQL Server'',
     lit ''ORA-'' @ [(Digit, Rep 5)],
     lit ''Oracle error'',
     lit ''SQLite/JDBCDriver'',
     lit ''SQLITE_ERROR'',
     lit (''near '' @ DQ @ ''SELECT'' @ DQ @ '': syntax error'') ]"

definition looks_like_db_error :: "string \<Rightarrow> string option" where
  "looks_like_db_error body = re_search DB_ERRORS body"

definition MONGO_HINTS :: "regex list" where
  "MONGO_HINTS = [ lit ''$where'', lit ''$ne'', lit ''$gt'', lit ''$regex'', lit ''$and'', lit ''$or'' ]"

section \<open>HTTP transport and evidence sink\<close>

text \<open>
  The scanners reach the outside through an \<^verbatim>\<open>aiohttp\<close> session and an evidence logger.
  The target is a deterministic transition function \<open>net\<close> on a world state \<open>'w\<close>: a request
  is answered by a response (status, body, headers) or by a raised exception, takes some
  elapsed time (what \<^verbatim>\<open>time.perf_counter\<close> measures around the call), and moves the
  world on, so that the same URL may be answered differently later. \<open>probe_client\<close> is the
  mutable state every scanner threads through its calls: the world, the trace of requests
  sent and the calls made to the logger (the logger is assumed not to raise; the \<open>meta\<close>
  argument of \<^verbatim>\<open>log_finding\<close>, which is the returned finding itself, is not repeated in the
  trace).

  The record \<open>env\<close> holds what the scanner modules take from outside the repository's
  sources: the network; \<open>differ\<close>, the \<^verbatim>\<open>similarity\<close> method of the \<^verbatim>\<open>ResponseDiffer\<close> in
  use (\<^verbatim>\<open>diffing/responses.py\<close> defines none, so it is a parameter; the fallback class
  of cmdi.py is \<open>similarity\<close> above); \<open>url_safe\<close> of \<^verbatim>\<open>evasions.encode\<close>;
  \<open>with_param\<close>, the URL rewriting \<^verbatim>\<open>_with_param\<close> does with \<^verbatim>\<open>urllib.parse\<close>; and
  \<open>fmt2f\<close>, the float formatting \<^verbatim>\<open>{x:.2f}\<close>. Elapsed times and similarity scores are
  reals.
\<close>

datatype http_request = GET string | POST string "(string \<times> string) list option"

datatype exn = TimeoutError string | OtherException string

fun exn_str :: "exn \<Rightarrow> string" where
  "exn_str (TimeoutError m) = m"
| "exn_str (OtherException m) = m"

datatype http_outcome = Response int string "(string \<times> string) list" | Failure exn

datatype log_entry =
    LogError string string
  | LogFinding string string string string
  | LogEvent string "string list"

record 'w probe_client =
  world :: 'w
  sent :: "http_request list"
  logged :: "log_entry list"

record 'w env =
  net :: "'w \<Rightarrow> http_request \<Rightarrow> (http_outcome \<times> real) \<times> 'w"
  differ :: "string \<Rightarrow> string \<Rightarrow> real"
  url_safe :: "string \<Rightarrow> string"
  with_param :: "string \<Rightarrow> string \<Rightarrow> string \<Rightarrow> string"
  fmt2f :: "real \<Rightarrow> string"

definition session_request ::
  "'w env \<Rightarrow> http_request \<Rightarrow> ('w, 'z) probe_client_scheme
   \<Rightarrow> (http_outcome \<times> real) \<times> ('w, 'z) probe_client_scheme" where
  "session_request E req st =
     (case net E (world st) req of
        ((out, dt), w') \<Rightarrow> ((out, dt), st\<lparr>world := w', sent := sent st @ [req]\<rparr>))"

section \<open>SQL injection scanner (active/injection/sqli.py)\<close>

text \<open>
  A finding is the dictionary \<^verbatim>\<open>_report\<close> builds, one field per key; \<open>status\<close> and
  \<open>observed_len\<close> hold one value or, for a boolean pair, a tuple of two. The scanner state
  adds the baseline cache \<^verbatim>\<open>self._baselines\<close> to the probe client; the payload tables and
  \<^verbatim>\<open>max_union_cols\<close> never change after construction and are constants and an argument.
  Each \<^verbatim>\<open>for\<close> loop (there are four) of \<^verbatim>\<open>scan_get_params\<close> is a recursive function over
  its payload list that takes and returns the list \<open>findings\<close>: \<^verbatim>\<open>continue\<close> is the
  recursive call on the rest, \<^verbatim>\<open>break\<close> returns at once. \<open>SQLi_scan_param\<close> is the body of
  the outer loop \<^verbatim>\<open>for p in params\<close>.
\<close>

datatype 'a one_or_two = Scalar 'a | Tuple2 'a 'a

record finding =
  f_title :: string
  f_category :: string
  f_url :: string
  f_parameter :: string
  f_technique :: string
  f_evidence :: string
  f_baseline_status :: int
  f_status :: "int one_or_two"
  f_baseline_len :: nat
  f_observed_len :: "nat one_or_two"
  f_timing :: "real option"
  f_severity :: string
  f_recommendation :: string

record 'w SQLiScanner = "'w probe_client" +
  baselines :: "string \<rightharpoonup> (int \<times> nat \<times> string)"

definition SQLiScanner_init :: "'w \<Rightarrow> 'w SQLiScanner" where
  "SQLiScanner_init w = \<lparr> world = w, sent = [], logged = [], baselines = Map.empty \<rparr>"

definition boolean_pairs :: "(string \<times> string) list" where
  "boolean_pairs =
   [ (''1'' @ SQ @ '' OR '' @ SQ @ ''1'' @ SQ @ ''='' @ SQ @ ''1'',
      ''1'' @ SQ @ '' AND '' @ SQ @ ''1'' @ SQ @ ''='' @ SQ @ ''2''),
     (''1) OR (1=1'', ''1) AND (1=2''),
     (''1'' @ SQ @ '') OR ('' @ SQ @ ''1'' @ SQ @ ''='' @ SQ @ ''1'',
      ''1'' @ SQ @ '') AND ('' @ SQ @ ''1'' @ SQ @ ''='' @ SQ @ ''2'') ]"

definition error_payloads :: "string list" where
  "error_payloads =
   [ SQ, DQ, SQ @ ''))'', SQ @ ''))--'', ''`'', ''1'' @ SQ @ ''--'', ''1'' @ SQ @ '')--'',
     ''1'' @ DQ @ ''--'', ''1) --'' ]"

definition time_payloads :: "string list" where
  "time_payloads =
   [ ''1'' @ SQ @ '' OR SLEEP(5)-- '',
     ''1'' @ SQ @ ''); SELECT pg_sleep(5); --'',
     ''1) OR SLEEP(5)-- '',
     ''1) ; SELECT pg_sleep(5); --'' ]"

definition SQLi_fetch ::
  "'w env \<Rightarrow> string \<Rightarrow> string \<Rightarrow> (string \<times> string) list option \<Rightarrow> ('w, 'z) probe_client_scheme
   \<Rightarrow> ((int \<times> string \<times> (string \<times> string) list) \<times> real) \<times> ('w, 'z) probe_client_scheme" where
  "SQLi_fetch E url method data st =
     (case session_request E (if upper method = ''GET'' then GET url else POST url data) st of
        ((Response status text headers, dt), st1) \<Rightarrow> (((status, text, headers), dt), st1)
      | ((Failure e, dt), st1) \<Rightarrow>
          (((0, [], []), dt),
           st1\<lparr>logged := logged st1 @ [LogError ''SQLiScanner._fetch'' (url @ '': '' @ exn_str e)]\<rparr>))"

definition SQLi_baseline ::
  "'w env \<Rightarrow> string \<Rightarrow> string \<Rightarrow> ('w, 'z) SQLiScanner_scheme
   \<Rightarrow> (int \<times> nat \<times> string) \<times> ('w, 'z) SQLiScanner_scheme" where
  "SQLi_baseline E url param st =
     (case baselines st param of
        Some b \<Rightarrow> (b, st)
      | None \<Rightarrow>
          (case SQLi_fetch E url ''GET'' None st of
             (((status, body, _), _), st1) \<Rightarrow>
               ((status, length body, take 4000 body),
                st1\<lparr>baselines := (baselines st1)(param \<mapsto> (status, length body, take 4000 body))\<rparr>)))"

definition SQLi_report ::
  "string \<Rightarrow> string \<Rightarrow> string \<Rightarrow> string \<Rightarrow> string \<Rightarrow> int \<Rightarrow> int one_or_two \<Rightarrow> nat \<Rightarrow> nat one_or_two
   \<Rightarrow> string option \<Rightarrow> real option \<Rightarrow> ('w, 'z) probe_client_scheme
   \<Rightarrow> finding \<times> ('w, 'z) probe_client_scheme" where
  "SQLi_report title url param technique evidence baseline_status status baseline_len new_len
     request_body timing st =
     (let data =
        \<lparr> f_title = title,
          f_category = ''Injection/SQLi'',
          f_url = url,
          f_parameter = param,
          f_technique = technique,
          f_evidence = evidence,
          f_baseline_status = baseline_status,
          f_status = status,
          f_baseline_len = baseline_len,
          f_observed_len = new_len,
          f_timing = timing,
          f_severity = (if technique \<in> set [''time-blind'', ''union-based'', ''error-based'']
                        then ''High'' else ''Medium''),
          f_recommendation =
            ''Use parameterized queries/ORM bind parameters; avoid dynamic SQL. '' @
            ''Apply least-privilege DB accounts and input validation. '' @
            ''Enable ORM/driver escaping consistently.'' \<rparr>
      in (data,
          st\<lparr>logged := logged st @
                [LogFinding ''SQL Injection'' url (technique @ '': '' @ evidence) (f_severity data)]\<rparr>))"

fun error_loop ::
  "'w env \<Rightarrow> string \<Rightarrow> string \<Rightarrow> int \<Rightarrow> nat \<Rightarrow> string list \<Rightarrow> finding list
   \<Rightarrow> ('w, 'z) probe_client_scheme \<Rightarrow> finding list \<times> ('w, 'z) probe_client_scheme" where
  "error_loop E url p baseline_status baseline_len [] findings st = (findings, st)"
| "error_loop E url p baseline_status baseline_len (payload # rest) findings st =
     (let test_url = with_param E url p (url_safe E payload) in
      case SQLi_fetch E test_url ''GET'' None st of
        (((status, body, _), _), st1) \<Rightarrow>
          if status = 0 then error_loop E url p baseline_status baseline_len rest findings st1
          else
            (case looks_like_db_error body of
               Some err \<Rightarrow>
                 if err \<noteq> [] then
                   (case SQLi_report ''SQL Injection (Error-based)'' test_url p ''error-based'' err
                           baseline_status (Scalar status) baseline_len (Scalar (length body))
                           None None st1 of
                      (f, st2) \<Rightarrow> (findings @ [f], st2))
                 else error_loop E url p baseline_status baseline_len rest findings st1
             | None \<Rightarrow> error_loop E url p baseline_status baseline_len rest findings st1))"

fun boolean_loop ::
  "'w env \<Rightarrow> string \<Rightarrow> string \<Rightarrow> int \<Rightarrow> nat \<Rightarrow> string \<Rightarrow> (string \<times> string) list \<Rightarrow> finding list
   \<Rightarrow> ('w, 'z) probe_client_scheme \<Rightarrow> finding list \<times> ('w, 'z) probe_client_scheme" where
  "boolean_loop E url p baseline_status baseline_len baseline_snippet [] findings st = (findings, st)"
| "boolean_loop E url p baseline_status baseline_len baseline_snippet ((t, f_val) # rest) findings st =
     (let t_url = with_param E url p (url_safe E t);
          f_url = with_param E url p (url_safe E f_val) in
      case SQLi_fetch E t_url ''GET'' None st of
        (((st_t, body_t, _), _), st1) \<Rightarrow>
      case SQLi_fetch E f_url ''GET'' None st1 of
        (((st_f, body_f, _), _), st2) \<Rightarrow>
          if st_t = 0 \<or> st_f = 0
          then boolean_loop E url p baseline_status baseline_len baseline_snippet rest findings st2
          else
            (let sim_tf = differ E body_t body_f;
                 sim_tb = differ E body_t baseline_snippet;
                 sim_fb = differ E body_f baseline_snippet in
             if sim_tf < 0.60 \<and> (sim_tb > 0.85 \<or> sim_fb > 0.85) then
               (case SQLi_report ''SQL Injection (Boolean-based)'' (t_url @ ''  vs  '' @ f_url) p
                       ''boolean-blind''
                       (''similarity(true,false)='' @ fmt2f E sim_tf @ '', sim(true,base)=''
                          @ fmt2f E sim_tb @ '', sim(false,base)='' @ fmt2f E sim_fb)
                       baseline_status (Tuple2 st_t st_f) baseline_len
                       (Tuple2 (length body_t) (length body_f)) None None st2 of
                  (f, st3) \<Rightarrow> (findings @ [f], st3))
             else boolean_loop E url p baseline_status baseline_len baseline_snippet rest findings st2))"

fun time_loop ::
  "'w env \<Rightarrow> string \<Rightarrow> string \<Rightarrow> int \<Rightarrow> nat \<Rightarrow> string list \<Rightarrow> finding list
   \<Rightarrow> ('w, 'z) probe_client_scheme \<Rightarrow> finding list \<times> ('w, 'z) probe_client_scheme" where
  "time_loop E url p baseline_status baseline_len [] findings st = (findings, st)"
| "time_loop E url p baseline_status baseline_len (payload # rest) findings st =
     (let test_url = with_param E url p (url_safe E payload) in
      case SQLi_fetch E test_url ''GET'' None st of
        (((status, body, _), dt), st1) \<Rightarrow>
          if status = 0 then time_loop E url p baseline_status baseline_len rest findings st1
          else if dt \<ge> 4.5 then
            (case SQLi_report ''SQL Injection (Time-based)'' test_url p ''time-blind''
                    (''response time '' @ fmt2f E dt @ ''s'')
                    baseline_status (Scalar status) baseline_len (Scalar (length body))
                    None (Some dt) st1 of
               (f, st2) \<Rightarrow> (findings @ [f], st2))
          else time_loop E url p baseline_status baseline_len rest findings st1)"

definition union_payload :: "int \<Rightarrow> string" where
  "union_payload cols = ''1 UNION SELECT '' @ join '','' (replicate (nat cols) ''NULL'') @ ''-- ''"

definition union_technique :: "int \<Rightarrow> string" where
  "union_technique cols = ''union-based (cols~'' @ str_int cols @ '')''"

fun union_loop ::
  "'w env \<Rightarrow> string \<Rightarrow> string \<Rightarrow> int \<Rightarrow> nat \<Rightarrow> string \<Rightarrow> int list \<Rightarrow> finding list
   \<Rightarrow> ('w, 'z) probe_client_scheme \<Rightarrow> finding list \<times> ('w, 'z) probe_client_scheme" where
  "union_loop E url p baseline_status baseline_len baseline_snippet [] findings st = (findings, st)"
| "union_loop E url p baseline_status baseline_len baseline_snippet (cols # rest) findings st =
     (let test_url = with_param E url p (url_safe E (union_payload cols)) in
      case SQLi_fetch E test_url ''GET'' None st of
        (((status, body, _), _), st1) \<Rightarrow>
          if status = 0
          then union_loop E url p baseline_status baseline_len baseline_snippet rest findings st1
          else
            (let sim = differ E body baseline_snippet in
             if sim < 0.70 then
               (case SQLi_report ''SQL Injection (UNION-based, columns guess)'' test_url p
                       (union_technique cols)
                       (''similarity(baseline,new)='' @ fmt2f E sim)
                       baseline_status (Scalar status) baseline_len (Scalar (length body))
                       None None st1 of
                  (f, st2) \<Rightarrow> (findings @ [f], st2))
             else union_loop E url p baseline_status baseline_len baseline_snippet rest findings st1))"

definition SQLi_scan_param ::
  "'w env \<Rightarrow> int \<Rightarrow> string \<Rightarrow> string \<Rightarrow> finding list \<Rightarrow> ('w, 'z) SQLiScanner_scheme
   \<Rightarrow> finding list \<times> ('w, 'z) SQLiScanner_scheme" where
  "SQLi_scan_param E max_union_cols url p findings st =
     (case SQLi_baseline E url p st of
        ((baseline_status, baseline_len, baseline_snippet), st0) \<Rightarrow>
      case error_loop E url p baseline_status baseline_len error_payloads findings st0 of
        (findings1, st1) \<Rightarrow>
      case boolean_loop E url p baseline_status baseline_len baseline_snippet boolean_pairs findings1 st1 of
        (findings2, st2) \<Rightarrow>
      case time_loop E url p baseline_status baseline_len time_payloads findings2 st2 of
        (findings3, st3) \<Rightarrow>
      union_loop E url p baseline_status baseline_len baseline_snippet [1..max_union_cols] findings3 st3)"

fun SQLi_params_loop ::
  "'w env \<Rightarrow> int \<Rightarrow> string \<Rightarrow> string list \<Rightarrow> finding list \<Rightarrow> ('w, 'z) SQLiScanner_scheme
   \<Rightarrow> finding list \<times> ('w, 'z) SQLiScanner_scheme" where
  "SQLi_params_loop E max_union_cols url [] findings st = (findings, st)"
| "SQLi_params_loop E max_union_cols url (p # ps) findings st =
     (case SQLi_scan_param E max_union_cols url p findings st of
        (findings', st') \<Rightarrow> SQLi_params_loop E max_union_cols url ps findings' st')"

definition SQLi_scan_get_params ::
  "'w env \<Rightarrow> int \<Rightarrow> string \<Rightarrow> string list \<Rightarrow> ('w, 'z) SQLiScanner_scheme
   \<Rightarrow> finding list \<times> ('w, 'z) SQLiScanner_scheme" where
  "SQLi_scan_get_params E max_union_cols url params st = SQLi_params_loop E max_union_cols url params [] st"

section \<open>NoSQL injection scanner (active/injection/nosqli.py)\<close>

text \<open>
  \<^verbatim>\<open>scan_get_params\<close> fetches one baseline for the whole call (no cache), then for every
  parameter runs the boolean pairs and one operator-leak probe.
\<close>

record nosqli_finding =
  n_title :: string
  n_category :: string
  n_url :: string
  n_parameter :: string
  n_evidence :: string
  n_baseline_status :: int
  n_status :: "int one_or_two"
  n_baseline_len :: nat
  n_observed_len :: "nat one_or_two"
  n_severity :: string
  n_recommendation :: string
  n_request_body :: "string option"

definition nosql_boolean_pairs :: "(string \<times> string) list" where
  "nosql_boolean_pairs =
   [ (''{'' @ DQ @ ''$ne'' @ DQ @ '': null}'', DQ @ ''fixedvalue'' @ DQ),
     (''{'' @ DQ @ ''$gt'' @ DQ @ '': '' @ DQ @ DQ @ ''}'', DQ @ ''zzzzzzzzzz'' @ DQ),
     (''{'' @ DQ @ ''$regex'' @ DQ @ '': '' @ DQ @ ''.*'' @ DQ @ ''}'', DQ @ ''no_such_value_12345'' @ DQ) ]"

definition NoSQLi_get ::
  "'w env \<Rightarrow> string \<Rightarrow> ('w, 'z) probe_client_scheme
   \<Rightarrow> (int \<times> string) \<times> ('w, 'z) probe_client_scheme" where
  "NoSQLi_get E url st =
     (case session_request E (GET url) st of
        ((Response status text _, _), st1) \<Rightarrow> ((status, text), st1)
      | ((Failure e, _), st1) \<Rightarrow>
          ((0, []),
           st1\<lparr>logged := logged st1 @ [LogError ''NoSQLiScanner._get'' (url @ '': '' @ exn_str e)]\<rparr>))"

definition NoSQLi_report ::
  "string \<Rightarrow> string \<Rightarrow> string \<Rightarrow> string \<Rightarrow> int \<Rightarrow> int one_or_two \<Rightarrow> nat \<Rightarrow> nat one_or_two
   \<Rightarrow> string option \<Rightarrow> ('w, 'z) probe_client_scheme
   \<Rightarrow> nosqli_finding \<times> ('w, 'z) probe_client_scheme" where
  "NoSQLi_report title param url evidence baseline_status status baseline_len new_len request_body st =
     (let data =
        \<lparr> n_title = title,
          n_category = ''Injection/NoSQLi'',
          n_url = url,
          n_parameter = param,
          n_evidence = evidence,
          n_baseline_status = baseline_status,
          n_status = status,
          n_baseline_len = baseline_len,
          n_observed_len = new_len,
          n_severity = ''High'',
          n_recommendation =
            ''Use server-side input validation and strict schema. Avoid directly passing client-supplied '' @
            ''objects into NoSQL queries. Whitelist allowed operators/fields and sanitize strings.'',
          n_request_body = request_body \<rparr>
      in (data,
          st\<lparr>logged := logged st @ [LogFinding ''NoSQL Injection'' url evidence (n_severity data)]\<rparr>))"

fun nosql_boolean_loop ::
  "'w env \<Rightarrow> string \<Rightarrow> string \<Rightarrow> int \<Rightarrow> string \<Rightarrow> (string \<times> string) list \<Rightarrow> nosqli_finding list
   \<Rightarrow> ('w, 'z) probe_client_scheme \<Rightarrow> nosqli_finding list \<times> ('w, 'z) probe_client_scheme" where
  "nosql_boolean_loop E url p st_b body_b [] findings st = (findings, st)"
| "nosql_boolean_loop E url p st_b body_b ((t, f_val) # rest) findings st =
     (let t_url = with_param E url p (url_safe E t);
          f_url = with_param E url p (url_safe E f_val) in
      case NoSQLi_get E t_url st of
        ((st_t, body_t), st1) \<Rightarrow>
      case NoSQLi_get E f_url st1 of
        ((st_f, body_f), st2) \<Rightarrow>
          if st_t = 0 \<or> st_f = 0
          then nosql_boolean_loop E url p st_b body_b rest findings st2
          else
            (let sim_tf = differ E body_t body_f;
                 sim_tb = differ E body_t body_b;
                 sim_fb = differ E body_f body_b in
             if sim_tf < 0.60 \<and> (sim_tb > 0.85 \<or> sim_fb > 0.85 \<or> st_t \<noteq> st_f) then
               (case NoSQLi_report ''NoSQL Injection (boolean/ops, GET)'' p (t_url @ '' vs '' @ f_url)
                       (''similarity(true,false)='' @ fmt2f E sim_tf @ ''; status('' @ str_int st_t
                          @ '','' @ str_int st_f @ '')'')
                       st_b (Tuple2 st_t st_f) (length body_b)
                       (Tuple2 (length body_t) (length body_f)) None st2 of
                  (f, st3) \<Rightarrow> (findings @ [f], st3))
             else nosql_boolean_loop E url p st_b body_b rest findings st2))"

fun NoSQLi_params_loop ::
  "'w env \<Rightarrow> string \<Rightarrow> int \<Rightarrow> string \<Rightarrow> string list \<Rightarrow> nosqli_finding list
   \<Rightarrow> ('w, 'z) probe_client_scheme \<Rightarrow> nosqli_finding list \<times> ('w, 'z) probe_client_scheme" where
  "NoSQLi_params_loop E url st_b body_b [] findings st = (findings, st)"
| "NoSQLi_params_loop E url st_b body_b (p # ps) findings st =
     (case nosql_boolean_loop E url p st_b body_b nosql_boolean_pairs findings st of
        (findings1, st1) \<Rightarrow>
      let e_url = with_param E url p (url_safe E (''{'' @ DQ @ ''$ne'' @ DQ @ '': null}'')) in
      case NoSQLi_get E e_url st1 of
        ((status, body), st2) \<Rightarrow>
          if status \<noteq> 0 \<and> re_search MONGO_HINTS body \<noteq> None then
            (case NoSQLi_report ''NoSQL Injection (operator leakage, GET)'' p e_url
                    ''Response contains NoSQL operator echoes.''
                    st_b (Scalar status) (length body_b) (Scalar (length body)) None st2 of
               (f, st3) \<Rightarrow> NoSQLi_params_loop E url st_b body_b ps (findings1 @ [f]) st3)
          else NoSQLi_params_loop E url st_b body_b ps findings1 st2)"

definition NoSQLi_scan_get_params ::
  "'w env \<Rightarrow> string \<Rightarrow> string list \<Rightarrow> ('w, 'z) probe_client_scheme
   \<Rightarrow> nosqli_finding list \<times> ('w, 'z) probe_client_scheme" where
  "NoSQLi_scan_get_params E url params st =
     (case NoSQLi_get E url st of
        ((st_b, body_b), st0) \<Rightarrow> NoSQLi_params_loop E url st_b (take 4000 body_b) params [] st0)"

section \<open>Command injection scanner, timing probes (active/injection/cmdi.py)\<close>

text \<open>
  \<^verbatim>\<open>_get\<close> and \<^verbatim>\<open>_post\<close> return the sentinel on every exception and log all but
  \<^verbatim>\<open>asyncio.TimeoutError\<close>. A form (\<^verbatim>\<open>data\<close>) is an association list in insertion
  order; \<open>dict_set\<close> is \<^verbatim>\<open>d[k] = v\<close>. The flag \<^verbatim>\<open>self.aggressive\<close> is fixed at construction
  and is an argument.
\<close>

definition TIME_PROBES :: "string list" where
  "TIME_PROBES = [ ''; sleep 5'', ''|| sleep 5'', ''$(sleep 5)'', ''; ping -c 5 127.0.0.1'' ]"

definition TIME_THRESHOLD :: real where
  "TIME_THRESHOLD = 4.5"

record cmdi_timing_finding =
  c_type :: string
  c_url :: string
  c_param :: string
  c_payload :: string
  c_baseline_time :: real
  c_observed_time :: real
  c_status_code :: int

fun dict_set :: "string \<Rightarrow> string \<Rightarrow> (string \<times> string) list \<Rightarrow> (string \<times> string) list" where
  "dict_set k v [] = [(k, v)]"
| "dict_set k v ((k', v') # d) = (if k' = k then (k, v) # d else (k', v') # dict_set k v d)"

definition CMDi_request ::
  "'w env \<Rightarrow> string \<Rightarrow> http_request \<Rightarrow> ('w, 'z) probe_client_scheme
   \<Rightarrow> ((int \<times> string \<times> (string \<times> string) list) \<times> real) \<times> ('w, 'z) probe_client_scheme" where
  "CMDi_request E stage req st =
     (case session_request E req st of
        ((Response status txt headers, dt), st1) \<Rightarrow> (((status, txt, headers), dt), st1)
      | ((Failure (TimeoutError m), dt), st1) \<Rightarrow> (((0, [], []), dt), st1)
      | ((Failure (OtherException m), dt), st1) \<Rightarrow>
          (((0, [], []), dt), st1\<lparr>logged := logged st1 @ [LogEvent ''cmdi_error'' [stage, m]]\<rparr>))"

definition CMDi_get ::
  "'w env \<Rightarrow> string \<Rightarrow> ('w, 'z) probe_client_scheme
   \<Rightarrow> ((int \<times> string \<times> (string \<times> string) list) \<times> real) \<times> ('w, 'z) probe_client_scheme" where
  "CMDi_get E url st = CMDi_request E ''_get'' (GET url) st"

definition CMDi_post ::
  "'w env \<Rightarrow> string \<Rightarrow> (string \<times> string) list \<Rightarrow> ('w, 'z) probe_client_scheme
   \<Rightarrow> ((int \<times> string \<times> (string \<times> string) list) \<times> real) \<times> ('w, 'z) probe_client_scheme" where
  "CMDi_post E url data st = CMDi_request E ''_post'' (POST url (Some data)) st"

definition injected_value :: "(string \<times> string) list option \<Rightarrow> string \<Rightarrow> string" where
  "injected_value data param =
     (case data of
        None \<Rightarrow> []
      | Some d \<Rightarrow> (if d \<noteq> [] \<and> param \<in> fst ` set d
                   then (case map_of d param of Some v \<Rightarrow> v | None \<Rightarrow> [])
                   else []))"

definition data_or_empty :: "(string \<times> string) list option \<Rightarrow> (string \<times> string) list" where
  "data_or_empty data = (case data of None \<Rightarrow> [] | Some d \<Rightarrow> d)"

fun cmdi_timing_loop ::
  "'w env \<Rightarrow> string \<Rightarrow> string \<Rightarrow> string \<Rightarrow> (string \<times> string) list option \<Rightarrow> real \<Rightarrow> string list
   \<Rightarrow> cmdi_timing_finding list \<Rightarrow> ('w, 'z) probe_client_scheme
   \<Rightarrow> cmdi_timing_finding list \<times> ('w, 'z) probe_client_scheme" where
  "cmdi_timing_loop E url param method data base_dt [] findings st = (findings, st)"
| "cmdi_timing_loop E url param method data base_dt (probe # rest) findings st =
     (let candidate = injected_value data param @ probe;
          cand_escaped = url_safe E candidate in
      case (if upper method = ''GET''
            then CMDi_get E (with_param E url param cand_escaped) st
            else CMDi_post E url (dict_set param candidate (data_or_empty data)) st) of
        (((status, body, _), elapsed), st1) \<Rightarrow>
          if elapsed - base_dt > TIME_THRESHOLD then
            (findings @
               [\<lparr> c_type = ''command_injection_timing'', c_url = url, c_param = param,
                   c_payload = probe, c_baseline_time = base_dt, c_observed_time = elapsed,
                   c_status_code = status \<rparr>],
             st1\<lparr>logged := logged st1 @
                    [LogFinding ''CMDi'' url (''timing '' @ fmt2f E elapsed @ ''s'') ''High'']\<rparr>)
          else cmdi_timing_loop E url param method data base_dt rest findings st1)"

definition CMDi_scan_timing_param ::
  "'w env \<Rightarrow> bool \<Rightarrow> string \<Rightarrow> string \<Rightarrow> string \<Rightarrow> (string \<times> string) list option
   \<Rightarrow> ('w, 'z) probe_client_scheme
   \<Rightarrow> cmdi_timing_finding list \<times> ('w, 'z) probe_client_scheme" where
  "CMDi_scan_timing_param E aggressive url param method data st =
     (if \<not> aggressive then ([], st)
      else
        case (if upper method = ''GET'' then CMDi_get E url st
              else CMDi_post E url (data_or_empty data) st) of
          (((st_base, body_base, _), base_dt), st0) \<Rightarrow>
            cmdi_timing_loop E url param method data base_dt TIME_PROBES [] st0)"

section \<open>Template injection scanner (active/injection/ssti.py)\<close>

text \<open>
  \<^verbatim>\<open>scan_param\<close> calls the session directly; a raised exception skips the probe. Neither
  loop has a \<^verbatim>\<open>break\<close>.
\<close>

definition REFLECTIVE_PROBES :: "(string \<times> string option) list" where
  "REFLECTIVE_PROBES =
   [ (''{{7*7}}'', Some ''49''),
     (''${7*7}'', Some ''49''),
     (''<%= 7*7 %>'', Some ''49''),
     (''${{7*7}}'', Some ''49''),
     (''$mathTool.multiply(7,7)'', Some ''49'') ]"

definition TIMING_PROBES :: "string list" where
  "TIMING_PROBES =
   [ ''{{'' @ SQ @ SQ @ ''.join(['' @ SQ @ SQ @ '' for x in range(5000000)])}}'',
     ''${{ '' @ SQ @ SQ @ ''.join(['' @ SQ @ SQ @ '' for x in range(5000000)]) }}'' ]"

record ssti_finding =
  s_url :: string
  s_param :: string
  s_payload :: string
  s_type :: string
  s_marker :: "string option"
  s_delay :: "real option"
  s_engine_hint :: string

fun ssti_reflective_loop ::
  "'w env \<Rightarrow> string \<Rightarrow> string \<Rightarrow> (string \<times> string option) list \<Rightarrow> ssti_finding list
   \<Rightarrow> ('w, 'z) probe_client_scheme \<Rightarrow> ssti_finding list \<times> ('w, 'z) probe_client_scheme" where
  "ssti_reflective_loop E url param [] findings st = (findings, st)"
| "ssti_reflective_loop E url param ((payload, marker) # rest) findings st =
     (let test_url = with_param E url param (url_safe E payload) in
      case session_request E (GET test_url) st of
        ((Response status body _, _), st1) \<Rightarrow>
          (case marker of
             Some m \<Rightarrow>
               if m \<noteq> [] \<and> contains body m then
                 ssti_reflective_loop E url param rest
                   (findings @
                      [\<lparr> s_url = url, s_param = param, s_payload = payload, s_type = ''reflective'',
                          s_marker = Some m, s_delay = None, s_engine_hint = ''Reflective eval'' \<rparr>])
                   (st1\<lparr>logged := logged st1 @ [LogEvent ''ssti'' [url, param, payload, m, ''Reflective eval'']]\<rparr>)
               else ssti_reflective_loop E url param rest findings st1
           | None \<Rightarrow> ssti_reflective_loop E url param rest findings st1)
      | ((Failure e, _), st1) \<Rightarrow> ssti_reflective_loop E url param rest findings st1)"

fun ssti_timing_loop ::
  "'w env \<Rightarrow> string \<Rightarrow> string \<Rightarrow> string list \<Rightarrow> ssti_finding list
   \<Rightarrow> ('w, 'z) probe_client_scheme \<Rightarrow> ssti_finding list \<times> ('w, 'z) probe_client_scheme" where
  "ssti_timing_loop E url param [] findings st = (findings, st)"
| "ssti_timing_loop E url param (payload # rest) findings st =
     (let test_url = with_param E url param (url_safe E payload) in
      case session_request E (GET test_url) st of
        ((Response status body _, elapsed), st1) \<Rightarrow>
          if elapsed > 5 then
            ssti_timing_loop E url param rest
              (findings @
                 [\<lparr> s_url = url, s_param = param, s_payload = payload, s_type = ''timing'',
                     s_marker = None, s_delay = Some elapsed, s_engine_hint = ''Timing-based SSTI'' \<rparr>])
              (st1\<lparr>logged := logged st1 @ [LogEvent ''ssti'' [url, param, payload, fmt2f E elapsed, ''Timing-based SSTI'']]\<rparr>)
          else ssti_timing_loop E url param rest findings st1
      | ((Failure e, _), st1) \<Rightarrow> ssti_timing_loop E url param rest findings st1)"

definition SSTI_scan_param ::
  "'w env \<Rightarrow> bool \<Rightarrow> string \<Rightarrow> string \<Rightarrow> ('w, 'z) probe_client_scheme
   \<Rightarrow> ssti_finding list \<times> ('w, 'z) probe_client_scheme" where
  "SSTI_scan_param E aggressive url param st =
     (case ssti_reflective_loop E url param REFLECTIVE_PROBES [] st of
        (findings, st1) \<Rightarrow>
          if aggressive then ssti_timing_loop E url param TIMING_PROBES findings st1
          else (findings, st1))"

section \<open>Scheduler (core/scheduler.py)\<close>

text \<open>
  A task's function with its arguments is modelled by what calling it does: it returns a
  value or raises an exception (a subclass of \<^verbatim>\<open>Exception\<close>, given by its message).
  \<^verbatim>\<open>ScanTask.run\<close> has one suspension point, the \<^verbatim>\<open>await\<close> of the function:
  \<open>run_begin\<close> is the part before it, \<open>run_end\<close> the part after it (both branches of the
  \<^verbatim>\<open>try\<close> and the \<^verbatim>\<open>finally\<close>). Time stamps are readings of a clock that ticks at every
  event; log lines are omitted.

  \<^verbatim>\<open>run_all\<close> gathers one \<^verbatim>\<open>sem_task\<close> per task. Its runs are the interleavings of
  two kinds of event: a waiting task acquires the semaphore (possible while its value is
  positive) and starts; a running task finishes and releases the semaphore. \<open>exec\<close> runs a
  sequence of events and is undefined on a sequence the event loop cannot produce.
  \<^verbatim>\<open>asyncio.Semaphore\<close> refuses a negative initial value with \<^verbatim>\<open>ValueError\<close>.
  \<open>run_all\<close> has returned when every task is done.
\<close>

datatype 'r call_outcome = Returns 'r | Raises string

record 'r ScanTask =
  name :: string
  func :: "'r call_outcome"
  result :: "'r option"
  exception :: "string option"
  completed :: bool
  started_at :: "nat option"
  finished_at :: "nat option"

definition ScanTask_init :: "string \<Rightarrow> 'r call_outcome \<Rightarrow> 'r ScanTask" where
  "ScanTask_init nm f =
     \<lparr> name = nm, func = f, result = None, exception = None, completed = False,
       started_at = None, finished_at = None \<rparr>"

definition run_begin :: "nat \<Rightarrow> 'r ScanTask \<Rightarrow> 'r ScanTask" where
  "run_begin now task = task\<lparr>started_at := Some now\<rparr>"

definition run_end :: "nat \<Rightarrow> 'r ScanTask \<Rightarrow> 'r ScanTask" where
  "run_end now task =
     (case func task of
        Returns r \<Rightarrow> task\<lparr>result := Some r, completed := True, finished_at := Some now\<rparr>
      | Raises e \<Rightarrow> task\<lparr>exception := Some e, completed := True, finished_at := Some now\<rparr>)"

definition ScanTask_run :: "nat \<Rightarrow> nat \<Rightarrow> 'r ScanTask \<Rightarrow> 'r ScanTask" where
  "ScanTask_run t0 t1 task = run_end t1 (run_begin t0 task)"

record 'r Scheduler =
  max_concurrent_tasks :: int
  tasks :: "'r ScanTask list"

definition Scheduler_init :: "int \<Rightarrow> 'r Scheduler" where
  "Scheduler_init n = \<lparr> max_concurrent_tasks = n, tasks = [] \<rparr>"

definition add_task :: "'r ScanTask \<Rightarrow> 'r Scheduler \<Rightarrow> 'r Scheduler" where
  "add_task task sch = sch\<lparr>tasks := tasks sch @ [task]\<rparr>"

definition pending_tasks :: "'r Scheduler \<Rightarrow> 'r ScanTask list" where
  "pending_tasks sch = filter (\<lambda>t. \<not> completed t) (tasks sch)"

definition completed_tasks :: "'r Scheduler \<Rightarrow> 'r ScanTask list" where
  "completed_tasks sch = filter completed (tasks sch)"

datatype phase = Waiting | Running | Done

record 'r run_state =
  sched :: "'r Scheduler"
  phases :: "phase list"
  semaphore :: nat
  clock :: nat

datatype sched_error = ValueError

definition run_all_start :: "nat \<Rightarrow> 'r Scheduler \<Rightarrow> sched_error + 'r run_state" where
  "run_all_start now sch =
     (if max_concurrent_tasks sch < 0 then Inl ValueError
      else Inr \<lparr> sched = sch, phases = replicate (length (tasks sch)) Waiting,
                 semaphore = nat (max_concurrent_tasks sch), clock = now \<rparr>)"

datatype event = Acquire nat | Finish nat

fun step :: "event \<Rightarrow> 'r run_state \<Rightarrow> 'r run_state option" where
  "step (Acquire i) s =
     (if i < length (phases s) \<and> phases s ! i = Waiting \<and> 0 < semaphore s
      then Some (s\<lparr> sched := (sched s)\<lparr>tasks := (tasks (sched s))[i := run_begin (clock s) (tasks (sched s) ! i)]\<rparr>,
                    phases := (phases s)[i := Running],
                    semaphore := semaphore s - 1,
                    clock := Suc (clock s) \<rparr>)
      else None)"
| "step (Finish i) s =
     (if i < length (phases s) \<and> phases s ! i = Running
      then Some (s\<lparr> sched := (sched s)\<lparr>tasks := (tasks (sched s))[i := run_end (clock s) (tasks (sched s) ! i)]\<rparr>,
                    phases := (phases s)[i := Done],
                    semaphore := semaphore s + 1,
                    clock := Suc (clock s) \<rparr>)
      else None)"

fun exec :: "event list \<Rightarrow> 'r run_state \<Rightarrow> 'r run_state option" where
  "exec [] s = Some s"
| "exec (e # es) s = (case step e s of None \<Rightarrow> None | Some s' \<Rightarrow> exec es s')"

definition run_all_returned :: "'r run_state \<Rightarrow> bool" where
  "run_all_returned s = list_all (\<lambda>p. p = Done) (phases s)"

definition remaining :: "'r run_state \<Rightarrow> nat" where
  "remaining s = 2 * count_list (phases s) Waiting + count_list (phases s) Running"

definition task_inv :: "'r ScanTask \<Rightarrow> phase \<Rightarrow> 'r ScanTask \<Rightarrow> bool" where
  "task_inv t0 p t =
     (case p of
        Waiting \<Rightarrow> t = t0
      | Running \<Rightarrow> (\<exists>c. t = run_begin c t0)
      | Done \<Rightarrow> (\<exists>c c'. t = ScanTask_run c c' t0))"

definition sched_inv :: "'r Scheduler \<Rightarrow> 'r run_state \<Rightarrow> bool" where
  "sched_inv sch s \<longleftrightarrow>
     length (phases s) = length (tasks sch)
     \<and> length (tasks (sched s)) = length (tasks sch)
     \<and> semaphore s + count_list (phases s) Running = nat (max_concurrent_tasks sch)
     \<and> (\<forall>i < length (tasks sch). task_inv (tasks sch ! i) (phases s ! i) (tasks (sched s) ! i))"

definition task_settled :: "'r ScanTask \<Rightarrow> 'r ScanTask \<Rightarrow> bool" where
  "task_settled t0 t \<longleftrightarrow>
     completed t \<and> name t = name t0 \<and> func t = func t0
     \<and> (case func t0 of
          Raises e \<Rightarrow> exception t = Some e \<and> result t = result t0
        | Returns r \<Rightarrow> result t = Some r \<and> exception t = exception t0)"

definition demo_sched :: "nat Scheduler" where
  "demo_sched = add_task (ScanTask_init ''b'' (Returns 3))
                  (add_task (ScanTask_init ''a'' (Raises ''boom'')) (Scheduler_init 1))"

definition demo_final :: "nat run_state" where
  "demo_final = \<lparr>sched = \<lparr>max_concurrent_tasks = 1, tasks =
          [\<lparr>name = ''a'', func = Raises ''boom'', result = None,
              exception = Some ''boom'', completed = True,
              started_at = Some 0, finished_at = Some 1\<rparr>,
           \<lparr>name = ''b'', func = Returns 3, result = Some 3,
              exception = None, completed = True, started_at = Some 2,
              finished_at = Some 3\<rparr>]\<rparr>,
     phases = [Done, Done], semaphore = 1, clock = 4\<rparr>"

section \<open>Specification vocabulary and sample environments\<close>

text \<open>
  \<open>probe_all\<close> lists what each payload of a list is answered when all are sent in order;
  \<open>error_hit\<close> is the test the error loop applies to one answer and \<open>error_finding\<close> the
  finding it reports for it. \<open>appends_at_most_one\<close>, \<open>produced_by\<close> and \<open>extends\<close> describe
  what a loop may do to the list of findings and to the client state. \<open>snapshot_of\<close> is the
  baseline tuple computed from one answer, \<open>failed_fetch\<close> the client state after a request
  that raised, \<open>network_down\<close> a target for which every request raises.

  The sample environments answer the n-th request with the n-th entry of a script and every
  later request with status 200 and body \<open>Welcome\<close> after 0.1 seconds; they use the fallback
  differ, leave payloads unescaped and append \<open>?key=value\<close> to the URL.
\<close>

fun probe_all ::
  "'w env \<Rightarrow> string \<Rightarrow> string \<Rightarrow> string list \<Rightarrow> ('w, 'z) probe_client_scheme
   \<Rightarrow> (string \<times> int \<times> string) list" where
  "probe_all E url p [] st = []"
| "probe_all E url p (payload # rest) st =
     (let test_url = with_param E url p (url_safe E payload) in
      case SQLi_fetch E test_url ''GET'' None st of
        (((status, body, _), _), st1) \<Rightarrow> (test_url, status, body) # probe_all E url p rest st1)"

definition error_hit :: "string \<times> int \<times> string \<Rightarrow> bool" where
  "error_hit r =
     (case r of (test_url, status, body) \<Rightarrow>
        status \<noteq> 0 \<and> (case looks_like_db_error body of Some err \<Rightarrow> err \<noteq> [] | None \<Rightarrow> False))"

definition error_finding :: "string \<Rightarrow> int \<Rightarrow> nat \<Rightarrow> string \<times> int \<times> string \<Rightarrow> finding" where
  "error_finding p baseline_status baseline_len r =
     (case r of (test_url, status, body) \<Rightarrow>
        \<lparr> f_title = ''SQL Injection (Error-based)'',
          f_category = ''Injection/SQLi'',
          f_url = test_url,
          f_parameter = p,
          f_technique = ''error-based'',
          f_evidence = the (looks_like_db_error body),
          f_baseline_status = baseline_status,
          f_status = Scalar status,
          f_baseline_len = baseline_len,
          f_observed_len = Scalar (length body),
          f_timing = None,
          f_severity = ''High'',
          f_recommendation =
            ''Use parameterized queries/ORM bind parameters; avoid dynamic SQL. '' @
            ''Apply least-privilege DB accounts and input validation. '' @
            ''Enable ORM/driver escaping consistently.'' \<rparr>)"

definition demo_fmt :: "real \<Rightarrow> string" where
  "demo_fmt r = (if r = 0 then ''0.00'' else if r = 1 then ''1.00'' else ''?'')"

definition scripted_net ::
  "(http_outcome \<times> real) list \<Rightarrow> nat \<Rightarrow> http_request \<Rightarrow> (http_outcome \<times> real) \<times> nat" where
  "scripted_net script w req =
     ((if w < length script then script ! w else (Response 200 ''Welcome'' [], 1/10)), Suc w)"

definition demo_env :: "(http_outcome \<times> real) list \<Rightarrow> nat env" where
  "demo_env script =
     \<lparr> net = scripted_net script, differ = similarity, url_safe = (\<lambda>s. s),
       with_param = (\<lambda>url k v. url @ ''?'' @ k @ ''='' @ v), fmt2f = demo_fmt \<rparr>"


definition script_A :: "(http_outcome \<times> real) list" where
  "script_A = [ (Response 200 ''Welcome'' [], 1/10),
                (Failure (TimeoutError ''timed out''), 15),
                (Response 200 ''Error: SQL syntax ... MySQL'' [], 1/10) ]"

definition script_B :: "(http_outcome \<times> real) list" where
  "script_B = [ (Response 200 ''Welcome'' [], 1/10),
                (Response 200 ''Error: SQL syntax ... MySQL'' [], 1/10),
                (Response 200 ''Welcome'' [], 1/10),
                (Response 200 ''No rows'' [], 1/10),
                (Response 200 ''Welcome'' [], 26/5),
                (Response 200 ''1 | NULL'' [], 1/10) ]"

definition script_C :: "(http_outcome \<times> real) list" where
  "script_C = [ (Response 200 ''Results: 3 rows'' [], 1/10),
                (Response 500 ''Server error'' [], 1/10) ]"

definition script_D :: "(http_outcome \<times> real) list" where
  "script_D = [ (Response 200 ''page A'' [], 1/10),
                (Response 404 ''page B'' [], 1/10) ]"


definition appends_at_most_one :: "('a \<Rightarrow> bool) \<Rightarrow> 'a list \<Rightarrow> 'a list \<Rightarrow> bool" where
  "appends_at_most_one P before after \<longleftrightarrow> after = before \<or> (\<exists>f. after = before @ [f] \<and> P f)"

definition produced_by :: "string \<Rightarrow> string \<Rightarrow> string \<Rightarrow> string \<Rightarrow> finding \<Rightarrow> bool" where
  "produced_by title technique sev p f \<longleftrightarrow>
     f_title f = title \<and> f_technique f = technique \<and> f_severity f = sev \<and> f_parameter f = p"

definition union_finding :: "string \<Rightarrow> finding \<Rightarrow> bool" where
  "union_finding p f \<longleftrightarrow>
     (\<exists>cols. produced_by ''SQL Injection (UNION-based, columns guess)'' (union_technique cols) ''Medium'' p f)"

definition union_medium :: "finding \<Rightarrow> bool" where
  "union_medium f \<longleftrightarrow>
     (f_title f = ''SQL Injection (UNION-based, columns guess)'' \<longrightarrow>
        f_severity f = ''Medium'' \<and> (\<exists>cols. f_technique f = union_technique cols))"

definition extends :: "('w, 'z) probe_client_scheme \<Rightarrow> ('w, 'z) probe_client_scheme \<Rightarrow> bool" where
  "extends st st' \<longleftrightarrow>
     probe_client.more st' = probe_client.more st \<and> (\<exists>xs. sent st' = sent st @ xs)"

definition snapshot_of :: "http_outcome \<Rightarrow> int \<times> nat \<times> string" where
  "snapshot_of out =
     (case out of
        Response status body headers \<Rightarrow> (status, length body, take 4000 body)
      | Failure e \<Rightarrow> (0, 0, []))"

definition demo_url :: string where
  "demo_url = ''http://t/item''"

definition script_E :: "(http_outcome \<times> real) list" where
  "script_E = [ (Response 200 (replicate 1000 CHR ''A'') [], 1/10),
                (Response 200 (replicate 1000 CHR ''B'') [], 1/10) ]"



section \<open>Properties of the response differ\<close>

text \<open>
  C6. For all texts \<open>a\<close> and \<open>b\<close>, the empty text included, \<open>similarity a b\<close> is a number
  in \<open>[0, 1]\<close>; \<open>similarity a a = 1\<close>; the value 1 means the texts are identical and
  every other pair scores 0. The function is total: it has no error result.
\<close>

theorem similarity_contract:
  "0 \<le> similarity a b \<and> similarity a b \<le> 1
   \<and> similarity a a = 1
   \<and> similarity [] [] = 1
   \<and> (similarity a b = 1 \<longleftrightarrow> a = b)
   \<and> (similarity a b = 0 \<longleftrightarrow> a \<noteq> b)"
  by (simp add: similarity_def)

theorem similarity_contract_witness:
  "similarity ''abc'' ''abd'' = 0 \<and> similarity ''abc'' ''abc'' = 1 \<and> similarity [] ''x'' = 0"
  using similarity_contract [of "''abc''" "''abd''"] similarity_contract [of "''abc''" "''abc''"]
    similarity_contract [of "[]" "''x''"]
  by simp

section \<open>Properties of the timing analyzer\<close>

text \<open>
  C8 as the spec states it fails in two places, both behind an explicit guard of
  \<^verbatim>\<open>is_delayed\<close>: an empty baseline population never reports a delay (the flat-second
  policy against the mean 0 would), and a population of two or more identical samples
  has standard deviation 0 and takes the flat-second branch, not \<open>threshold * stddev\<close>.
\<close>

theorem is_delayed_claim_counterexample:
  "\<not> (is_delayed (TimingAnalyzer_init []) 10 (9/2)
        \<longleftrightarrow> \<bar>10 - baseline_mean (TimingAnalyzer_init [])\<bar> > 9/2)
   \<and> \<not> (is_delayed (TimingAnalyzer_init [1/10, 1/10]) (3/10) (9/2)
        \<longleftrightarrow> \<bar>3/10 - baseline_mean (TimingAnalyzer_init [1/10, 1/10])\<bar>
              > 9/2 * baseline_std (TimingAnalyzer_init [1/10, 1/10]))"
  by (simp add: is_delayed_def TimingAnalyzer_init_def mean_def stdev_def)

text \<open>
  C8, amended. With the single baseline sample 0.1 and threshold 4.5, an observed 5.0 is
  delayed and an observed 0.3 is not. In general: an empty population never reports a
  delay; a population of one sample, or one whose standard deviation is 0, uses the
  flat-second policy \<open>\<bar>observed - mean\<bar> > threshold\<close>; a population of two or more samples
  with positive standard deviation uses \<open>\<bar>observed - mean\<bar> > stddev * threshold\<close>.
\<close>

theorem is_delayed_decision:
  "is_delayed (TimingAnalyzer_init [1/10]) 5 (9/2)
   \<and> \<not> is_delayed (TimingAnalyzer_init [1/10]) (3/10) (9/2)
   \<and> is_delayed (TimingAnalyzer_init bl) t k =
       (if bl = [] then False
        else if length bl < 2 \<or> stdev bl \<le> 0 then \<bar>t - mean bl\<bar> > k
        else \<bar>t - mean bl\<bar> > stdev bl * k)"
  by (auto simp add: is_delayed_def TimingAnalyzer_init_def mean_def Let_def)

theorem is_delayed_decision_witness:
  "is_delayed (TimingAnalyzer_init [0, 1, 2]) 5 3
   \<and> \<not> is_delayed (TimingAnalyzer_init [0, 1, 2]) 4 3
   \<and> \<not> is_delayed (TimingAnalyzer_init [2, 2]) 4 3
   \<and> \<not> is_delayed (TimingAnalyzer_init []) 100 3"
  using is_delayed_decision [of "[0, 1, 2]" 5 3] is_delayed_decision [of "[0, 1, 2]" 4 3]
    is_delayed_decision [of "[2, 2]" 4 3] is_delayed_decision [of "[]" 100 3]
  by (simp add: mean_def stdev_def)

section \<open>Findings of the SQL injection scanner\<close>

lemma union_technique_not_high:
  "union_technique cols \<noteq> ''time-blind'' \<and> union_technique cols \<noteq> ''union-based''
   \<and> union_technique cols \<noteq> ''error-based''"
  by (simp add: union_technique_def)

lemma SQLi_report_fst:
  "fst (SQLi_report title url p technique ev bs s bl nl rb tm st) =
     \<lparr> f_title = title, f_category = ''Injection/SQLi'', f_url = url, f_parameter = p,
       f_technique = technique, f_evidence = ev, f_baseline_status = bs, f_status = s,
       f_baseline_len = bl, f_observed_len = nl, f_timing = tm,
       f_severity = (if technique \<in> set [''time-blind'', ''union-based'', ''error-based'']
                     then ''High'' else ''Medium''),
       f_recommendation =
            ''Use parameterized queries/ORM bind parameters; avoid dynamic SQL. '' @
            ''Apply least-privilege DB accounts and input validation. '' @
            ''Enable ORM/driver escaping consistently.'' \<rparr>"
  by (simp add: SQLi_report_def Let_def)

lemma error_loop_appends:
  "appends_at_most_one (produced_by ''SQL Injection (Error-based)'' ''error-based'' ''High'' p)
     findings (fst (error_loop E url p bs bl pays findings st))"
proof (induction pays arbitrary: st)
  case Nil
  then show ?case by (simp add: appends_at_most_one_def)
next
  case (Cons a pays)
  then show ?case
    by (auto simp: Let_def SQLi_report_def appends_at_most_one_def produced_by_def
        split: prod.splits option.splits)
qed

lemma boolean_loop_appends:
  "appends_at_most_one (produced_by ''SQL Injection (Boolean-based)'' ''boolean-blind'' ''Medium'' p)
     findings (fst (boolean_loop E url p bs bl sn pairs findings st))"
proof (induction pairs arbitrary: st)
  case Nil
  then show ?case by (simp add: appends_at_most_one_def)
next
  case (Cons a pairs)
  obtain t f_val where a: "a = (t, f_val)" by (cases a)
  from Cons show ?case unfolding a
    by (auto simp: Let_def SQLi_report_def appends_at_most_one_def produced_by_def
        split: prod.splits option.splits)
qed

lemma time_loop_appends:
  "appends_at_most_one (produced_by ''SQL Injection (Time-based)'' ''time-blind'' ''High'' p)
     findings (fst (time_loop E url p bs bl pays findings st))"
proof (induction pays arbitrary: st)
  case Nil
  then show ?case by (simp add: appends_at_most_one_def)
next
  case (Cons a pays)
  then show ?case
    by (auto simp: Let_def SQLi_report_def appends_at_most_one_def produced_by_def
        split: prod.splits option.splits)
qed

lemma union_loop_appends:
  "appends_at_most_one (union_finding p)
     findings (fst (union_loop E url p bs bl sn cs findings st))"
proof (induction cs arbitrary: st)
  case Nil
  then show ?case by (simp add: appends_at_most_one_def)
next
  case (Cons a cs)
  have "union_finding p x" if "SQLi_report ''SQL Injection (UNION-based, columns guess)'' u p
          (union_technique a) ev bs s bl nl None None st' = (x, y)" for u ev s nl st' x y
  proof -
    from that have "x = fst (SQLi_report ''SQL Injection (UNION-based, columns guess)'' u p
          (union_technique a) ev bs s bl nl None None st')" by simp
    then show ?thesis
      using union_technique_not_high [of a]
      unfolding union_finding_def produced_by_def SQLi_report_fst by auto
  qed
  with Cons show ?case
    by (auto simp: Let_def appends_at_most_one_def split: prod.splits option.splits)
qed

lemma SQLi_scan_param_decomp:
  assumes "SQLi_baseline E url p st = ((bs, bl, sn), st0)"
  shows "\<exists>fb ft fu.
           fst (SQLi_scan_param E m url p findings st) =
             fst (error_loop E url p bs bl error_payloads findings st0) @ fb @ ft @ fu
           \<and> length fb \<le> 1 \<and> length ft \<le> 1 \<and> length fu \<le> 1
           \<and> list_all (produced_by ''SQL Injection (Boolean-based)'' ''boolean-blind'' ''Medium'' p) fb
           \<and> list_all (produced_by ''SQL Injection (Time-based)'' ''time-blind'' ''High'' p) ft
           \<and> list_all (union_finding p) fu"
proof -
  obtain f1 s1 where e: "error_loop E url p bs bl error_payloads findings st0 = (f1, s1)"
    by (cases "error_loop E url p bs bl error_payloads findings st0")
  obtain f2 s2 where b: "boolean_loop E url p bs bl sn boolean_pairs f1 s1 = (f2, s2)"
    by (cases "boolean_loop E url p bs bl sn boolean_pairs f1 s1")
  obtain f3 s3 where t: "time_loop E url p bs bl time_payloads f2 s2 = (f3, s3)"
    by (cases "time_loop E url p bs bl time_payloads f2 s2")
  obtain f4 s4 where u: "union_loop E url p bs bl sn [1..m] f3 s3 = (f4, s4)"
    by (cases "union_loop E url p bs bl sn [1..m] f3 s3")
  have r: "fst (SQLi_scan_param E m url p findings st) = f4"
    by (simp add: SQLi_scan_param_def assms e b t u)
  from boolean_loop_appends [of p f1 E url bs bl sn boolean_pairs s1] b
  obtain fb where fb: "f2 = f1 @ fb" "length fb \<le> 1"
    "list_all (produced_by ''SQL Injection (Boolean-based)'' ''boolean-blind'' ''Medium'' p) fb"
    by (auto simp: appends_at_most_one_def)
  from time_loop_appends [of p f2 E url bs bl time_payloads s2] t
  obtain ft where ft: "f3 = f2 @ ft" "length ft \<le> 1"
    "list_all (produced_by ''SQL Injection (Time-based)'' ''time-blind'' ''High'' p) ft"
    by (auto simp: appends_at_most_one_def)
  from union_loop_appends [of p f3 E url bs bl sn "[1..m]" s3] u
  obtain fu where fu: "f4 = f3 @ fu" "length fu \<le> 1" "list_all (union_finding p) fu"
    by (auto simp: appends_at_most_one_def)
  from r e fb ft fu show ?thesis by auto
qed



lemma error_loop_first_match:
  "fst (error_loop E url p bs bl pays findings st) =
     findings @ (case find error_hit (probe_all E url p pays st) of
                   None \<Rightarrow> []
                 | Some r \<Rightarrow> [error_finding p bs bl r])"
proof (induction pays arbitrary: st)
  case Nil
  then show ?case by simp
next
  case (Cons a pays)
  then show ?case
    by (auto simp: Let_def error_hit_def error_finding_def SQLi_report_def
        split: prod.splits option.splits)
qed

lemma union_technique_not_error: "union_technique cols \<noteq> ''error-based''"
  by (simp add: union_technique_def)

text \<open>
  C5. Error-signature procedure. The error payloads are sent in order and the first
  response with a non-zero status whose body matches the fingerprint table
  \<open>DB_ERRORS\<close> wins: the error loop appends exactly the finding built from that response
  and nothing when no response matches. In the whole per-parameter scan that finding comes
  first and no finding appended after it has technique \<open>error-based\<close>, so exactly one finding
  with technique \<open>error-based\<close> is emitted for the parameter; its severity is \<open>High\<close>.
  The end-to-end scenario of the spec (baseline 200 \<open>Welcome\<close>, an error payload answered
  by 200 \<open>Error: SQL syntax ... MySQL\<close>) is evaluated in the witness.
\<close>

theorem SQLi_error_signature_first_match:
  assumes "fst (SQLi_baseline E url p st) = (bs, bl, sn)"
  shows "fst (error_loop E url p bs bl pays findings (snd (SQLi_baseline E url p st))) =
           findings @ (case find error_hit (probe_all E url p pays (snd (SQLi_baseline E url p st))) of
                         None \<Rightarrow> []
                       | Some r \<Rightarrow> [error_finding p bs bl r])
         \<and> (\<exists>others.
               fst (SQLi_scan_param E m url p findings st) =
                 findings @ (case find error_hit (probe_all E url p error_payloads (snd (SQLi_baseline E url p st))) of
                               None \<Rightarrow> []
                             | Some r \<Rightarrow> [error_finding p bs bl r]) @ others
               \<and> list_all (\<lambda>f. f_technique f \<noteq> ''error-based'') others)
         \<and> f_technique (error_finding p bs bl r) = ''error-based''
         \<and> f_severity (error_finding p bs bl r) = ''High''
         \<and> f_parameter (error_finding p bs bl r) = p"
proof -
  let ?st0 = "snd (SQLi_baseline E url p st)"
  from assms have b: "SQLi_baseline E url p st = ((bs, bl, sn), ?st0)"
    by (metis prod.collapse)
  from SQLi_scan_param_decomp [OF b, of m findings] obtain fb ft fu where
    d: "fst (SQLi_scan_param E m url p findings st) =
          fst (error_loop E url p bs bl error_payloads findings ?st0) @ fb @ ft @ fu"
    and pb: "list_all (produced_by ''SQL Injection (Boolean-based)'' ''boolean-blind'' ''Medium'' p) fb"
    and pt: "list_all (produced_by ''SQL Injection (Time-based)'' ''time-blind'' ''High'' p) ft"
    and pu: "list_all (union_finding p) fu"
    by blast
  have o: "list_all (\<lambda>f. f_technique f \<noteq> ''error-based'') (fb @ ft @ fu)"
    using pb pt pu union_technique_not_error
    by (auto simp: list_all_iff produced_by_def union_finding_def)
  have 2: "\<exists>others.
               fst (SQLi_scan_param E m url p findings st) =
                 findings @ (case find error_hit (probe_all E url p error_payloads ?st0) of
                               None \<Rightarrow> []
                             | Some r \<Rightarrow> [error_finding p bs bl r]) @ others
               \<and> list_all (\<lambda>f. f_technique f \<noteq> ''error-based'') others"
    using o d error_loop_first_match [of E url p bs bl error_payloads findings ?st0]
    by (intro exI [of _ "fb @ ft @ fu"]) simp
  have 3: "f_technique (error_finding p bs bl r) = ''error-based''
         \<and> f_severity (error_finding p bs bl r) = ''High''
         \<and> f_parameter (error_finding p bs bl r) = p"
    by (cases r) (simp add: error_finding_def)
  from error_loop_first_match [of E url p bs bl pays findings ?st0] 2 3 show ?thesis by blast
qed

lemma scan_param_union_medium:
  assumes "list_all union_medium findings"
  shows "list_all union_medium (fst (SQLi_scan_param E m url p findings st))"
proof -
  obtain bs bl sn st0 where bl: "SQLi_baseline E url p st = ((bs, bl, sn), st0)"
    by (metis prod.exhaust)
  from SQLi_scan_param_decomp [OF bl, of m findings] obtain fb ft fu where
    d: "fst (SQLi_scan_param E m url p findings st) =
          fst (error_loop E url p bs bl error_payloads findings st0) @ fb @ ft @ fu"
    and pb: "list_all (produced_by ''SQL Injection (Boolean-based)'' ''boolean-blind'' ''Medium'' p) fb"
    and pt: "list_all (produced_by ''SQL Injection (Time-based)'' ''time-blind'' ''High'' p) ft"
    and pu: "list_all (union_finding p) fu"
    by blast
  from error_loop_appends [of p findings E url bs bl error_payloads st0]
  obtain fe where fe: "fst (error_loop E url p bs bl error_payloads findings st0) = findings @ fe"
    "list_all (produced_by ''SQL Injection (Error-based)'' ''error-based'' ''High'' p) fe"
    by (auto simp: appends_at_most_one_def)
  show ?thesis
    using assms pb pt pu fe(2) unfolding d fe(1)
    by (auto simp: list_all_iff produced_by_def union_finding_def union_medium_def)
qed

lemma params_loop_union_medium:
  "list_all union_medium findings \<Longrightarrow>
   list_all union_medium (fst (SQLi_params_loop E m url ps findings st))"
proof (induction ps arbitrary: findings st)
  case Nil
  then show ?case by simp
next
  case (Cons p ps)
  obtain f' st' where s: "SQLi_scan_param E m url p findings st = (f', st')"
    by (cases "SQLi_scan_param E m url p findings st")
  from scan_param_union_medium [OF Cons.prems, of E m url p st] s
  have "list_all union_medium f'" by simp
  from Cons.IH [OF this] show ?case by (simp add: s)
qed

text \<open>
  C10. \<open>_report\<close> assigns severity \<open>High\<close> exactly to the techniques \<open>time-blind\<close>,
  \<open>union-based\<close> and \<open>error-based\<close>, and \<open>Medium\<close> to every other string. The union
  procedure passes \<open>union-based (cols~N)\<close>, which is none of the three, so every
  UNION-based finding of a scan has severity \<open>Medium\<close>.
\<close>

theorem SQLi_union_findings_are_medium:
  "f_severity (fst (SQLi_report title url p technique ev bs s bl nl rb tm st)) =
      (if technique = ''time-blind'' \<or> technique = ''union-based'' \<or> technique = ''error-based''
       then ''High'' else ''Medium'')
   \<and> f_severity (fst (SQLi_report title url p (union_technique cols) ev bs s bl nl rb tm st)) = ''Medium''
   \<and> (\<forall>f \<in> set (fst (SQLi_scan_get_params E m url params st')).
         f_title f = ''SQL Injection (UNION-based, columns guess)'' \<longrightarrow>
           f_severity f = ''Medium'' \<and> (\<exists>c. f_technique f = union_technique c))"
proof -
  have 1: "f_severity (fst (SQLi_report title url p t ev bs s bl nl rb tm st)) =
      (if t = ''time-blind'' \<or> t = ''union-based'' \<or> t = ''error-based''
       then ''High'' else ''Medium'')" for t
    by (simp add: SQLi_report_fst)
  have 2: "f_severity (fst (SQLi_report title url p (union_technique cols) ev bs s bl nl rb tm st)) = ''Medium''"
    using union_technique_not_high [of cols] by (simp add: 1)
  have "list_all union_medium (fst (SQLi_scan_get_params E m url params st'))"
    unfolding SQLi_scan_get_params_def by (rule params_loop_union_medium) simp
  then have 3: "\<forall>f \<in> set (fst (SQLi_scan_get_params E m url params st')).
         f_title f = ''SQL Injection (UNION-based, columns guess)'' \<longrightarrow>
           f_severity f = ''Medium'' \<and> (\<exists>c. f_technique f = union_technique c)"
    by (auto simp: list_all_iff union_medium_def)
  from 1 2 3 show ?thesis by blast
qed

section \<open>Baseline cache and the gate on timing probes\<close>

lemma upper_GET: "upper ''GET'' = ''GET''"
  by (simp add: upper_def ascii_upper_def)

lemma baselines_more:
  "probe_client.more (s :: ('w, 'z) SQLiScanner_scheme) = probe_client.more t \<Longrightarrow> baselines s = baselines t"
  by (cases s, cases t) simp

lemma fetch_more: "probe_client.more (snd (SQLi_fetch E u m d st)) = probe_client.more st"
  by (simp add: SQLi_fetch_def session_request_def split: prod.splits http_outcome.splits)

lemma fetch_sent:
  "sent (snd (SQLi_fetch E u m d st)) = sent st @ [if upper m = ''GET'' then GET u else POST u d]"
  by (simp add: SQLi_fetch_def session_request_def split: prod.splits http_outcome.splits)

lemma report_more: "probe_client.more (snd (SQLi_report a b c d e f g h i j k st)) = probe_client.more st"
  by (simp add: SQLi_report_def Let_def)

lemma report_sent: "sent (snd (SQLi_report a b c d e f g h i j k st)) = sent st"
  by (simp add: SQLi_report_def Let_def)

lemma extends_refl: "extends st st"
  by (simp add: extends_def)

lemma extends_trans: "extends a b \<Longrightarrow> extends b c \<Longrightarrow> extends a c"
  by (auto simp: extends_def)

lemma fetch_extends: "SQLi_fetch E u m d st = (r, st1) \<Longrightarrow> extends st st1"
  using fetch_more [of E u m d st] fetch_sent [of E u m d st] by (simp add: extends_def)

lemma report_extends: "SQLi_report a b c d e f g h i j k st = (x, st1) \<Longrightarrow> extends st st1"
  using report_more [of a b c d e f g h i j k st] report_sent [of a b c d e f g h i j k st]
  by (simp add: extends_def)

lemma error_loop_extends:
  "error_loop E url p bs bl pays findings st = (fs, st') \<Longrightarrow> extends st st'"
proof (induction pays arbitrary: st)
  case Nil
  then show ?case by (simp add: extends_refl)
next
  case (Cons a pays)
  from Cons.prems show ?case
    by (auto simp: Let_def split: prod.splits option.splits if_splits
        dest!: fetch_extends report_extends Cons.IH intro: extends_trans)
qed

lemma boolean_loop_extends:
  "boolean_loop E url p bs bl sn pairs findings st = (fs, st') \<Longrightarrow> extends st st'"
proof (induction pairs arbitrary: st)
  case Nil
  then show ?case by (simp add: extends_refl)
next
  case (Cons a pairs)
  obtain t f_val where a: "a = (t, f_val)" by (cases a)
  from Cons.prems show ?case unfolding a
    by (auto simp: Let_def split: prod.splits option.splits if_splits
        dest!: fetch_extends report_extends Cons.IH intro: extends_trans)
qed

lemma time_loop_extends:
  "time_loop E url p bs bl pays findings st = (fs, st') \<Longrightarrow> extends st st'"
proof (induction pays arbitrary: st)
  case Nil
  then show ?case by (simp add: extends_refl)
next
  case (Cons a pays)
  from Cons.prems show ?case
    by (auto simp: Let_def split: prod.splits option.splits if_splits
        dest!: fetch_extends report_extends Cons.IH intro: extends_trans)
qed

lemma union_loop_extends:
  "union_loop E url p bs bl sn cs findings st = (fs, st') \<Longrightarrow> extends st st'"
proof (induction cs arbitrary: st)
  case Nil
  then show ?case by (simp add: extends_refl)
next
  case (Cons a cs)
  from Cons.prems show ?case
    by (auto simp: Let_def split: prod.splits option.splits if_splits
        dest!: fetch_extends report_extends Cons.IH intro: extends_trans)
qed

lemma baseline_hit: "baselines st param = Some b \<Longrightarrow> SQLi_baseline E url param st = (b, st)"
  by (simp add: SQLi_baseline_def)

lemma baseline_miss:
  assumes "baselines st param = None" and "net E (world st) (GET url) = ((out, dt), w')"
  shows "fst (SQLi_baseline E url param st) = snapshot_of out"
    and "sent (snd (SQLi_baseline E url param st)) = sent st @ [GET url]"
    and "baselines (snd (SQLi_baseline E url param st)) = (baselines st)(param \<mapsto> snapshot_of out)"
  using assms
  by (auto simp: SQLi_baseline_def SQLi_fetch_def session_request_def upper_GET snapshot_of_def
      split: http_outcome.splits)

lemma baseline_stores:
  "baselines (snd (SQLi_baseline E url p st)) = (baselines st)(p \<mapsto> fst (SQLi_baseline E url p st))"
proof (cases "baselines st p")
  case None
  obtain r st1 where f0: "SQLi_fetch E url ''GET'' None st = (r, st1)"
    by (cases "SQLi_fetch E url ''GET'' None st")
  obtain status body h dt where r: "r = ((status, body, h), dt)"
    by (cases r) auto
  note f = f0 [unfolded r]
  from fetch_extends [OF f] have eq: "baselines st1 = baselines st"
    using baselines_more [of st1 st] by (simp add: extends_def)
  have "SQLi_baseline E url p st =
          ((status, length body, take 4000 body),
           st1\<lparr>baselines := (baselines st1)(p \<mapsto> (status, length body, take 4000 body))\<rparr>)"
    by (simp add: SQLi_baseline_def None f)
  then show ?thesis by (simp add: eq)
next
  case (Some b)
  have "SQLi_baseline E url p st = (b, st)" by (simp add: SQLi_baseline_def Some)
  then show ?thesis using Some by (simp add: fun_upd_idem)
qed

lemma extends_baselines:
  "extends (st :: ('w, 'z) SQLiScanner_scheme) st' \<Longrightarrow> baselines st' = baselines st"
  using baselines_more [of st' st] by (simp add: extends_def)

lemma scan_param_after_baseline:
  assumes "SQLi_baseline E url p st = (b, st0)"
    and "SQLi_scan_param E m url p findings st = (fs, st')"
  shows "extends st0 st'"
proof -
  obtain bs bl sn where b: "b = (bs, bl, sn)" by (cases b)
  obtain f1 s1 where e: "error_loop E url p bs bl error_payloads findings st0 = (f1, s1)"
    by (cases "error_loop E url p bs bl error_payloads findings st0")
  obtain f2 s2 where bo: "boolean_loop E url p bs bl sn boolean_pairs f1 s1 = (f2, s2)"
    by (cases "boolean_loop E url p bs bl sn boolean_pairs f1 s1")
  obtain f3 s3 where t: "time_loop E url p bs bl time_payloads f2 s2 = (f3, s3)"
    by (cases "time_loop E url p bs bl time_payloads f2 s2")
  obtain f4 s4 where u: "union_loop E url p bs bl sn [1..m] f3 s3 = (f4, s4)"
    by (cases "union_loop E url p bs bl sn [1..m] f3 s3")
  from assms have "st' = s4"
    by (simp add: SQLi_scan_param_def b e bo t u)
  with error_loop_extends [OF e] boolean_loop_extends [OF bo] time_loop_extends [OF t]
    union_loop_extends [OF u]
  show ?thesis by (blast intro: extends_trans)
qed

lemma scan_param_baselines:
  "baselines (snd (SQLi_scan_param E m url p findings st)) =
     (baselines st)(p \<mapsto> fst (SQLi_baseline E url p st))"
proof -
  have "extends (snd (SQLi_baseline E url p st)) (snd (SQLi_scan_param E m url p findings st))"
    by (rule scan_param_after_baseline [of E url p st "fst (SQLi_baseline E url p st)" _ m findings
          "fst (SQLi_scan_param E m url p findings st)"]) simp_all
  from extends_baselines [OF this] show ?thesis by (simp add: baseline_stores)
qed

lemma params_loop_keeps_baseline:
  "baselines st q = Some b \<Longrightarrow>
   baselines (snd (SQLi_params_loop E m url ps findings st)) q = Some b"
proof (induction ps arbitrary: findings st)
  case Nil
  then show ?case by simp
next
  case (Cons p ps)
  obtain f' st' where s: "SQLi_scan_param E m url p findings st = (f', st')"
    by (cases "SQLi_scan_param E m url p findings st")
  have "baselines st' = (baselines st)(p \<mapsto> fst (SQLi_baseline E url p st))"
    using scan_param_baselines [of E m url p findings st] by (simp add: s)
  with Cons.prems have "baselines st' q = Some b"
    by (auto simp: baseline_hit)
  from Cons.IH [OF this] show ?case by (simp add: s)
qed

text \<open>
  C3, amended. The baseline cache of the SQLi scanner is keyed by the parameter name alone,
  not by (target, parameter). A call of \<open>_baseline\<close> for a parameter that is cached returns
  the cached snapshot and leaves the scanner unchanged, whatever URL it is given: no request
  is sent. A call for a parameter that is not cached sends exactly one unmodified GET to the
  given URL and stores (status, body length, first 4000 characters of the body), or
  (0, 0, empty) when the transport failed. A per-parameter scan leaves the cache as
  \<open>_baseline\<close> left it, a cached snapshot survives every later scan of the same scanner,
  and with a cached snapshot all four procedures are run against that snapshot.
\<close>

theorem SQLi_baseline_cached_per_parameter:
  "(baselines st param = Some b \<longrightarrow> SQLi_baseline E url param st = (b, st))
   \<and> (baselines st param = None \<and> net E (world st) (GET url) = ((out, dt), w') \<longrightarrow>
        fst (SQLi_baseline E url param st) = snapshot_of out
        \<and> sent (snd (SQLi_baseline E url param st)) = sent st @ [GET url]
        \<and> baselines (snd (SQLi_baseline E url param st)) = (baselines st)(param \<mapsto> snapshot_of out))
   \<and> baselines (snd (SQLi_scan_param E m url param findings st)) =
        (baselines st)(param \<mapsto> fst (SQLi_baseline E url param st))
   \<and> (baselines st param = Some b \<longrightarrow>
        baselines (snd (SQLi_scan_get_params E m url' ps st)) param = Some b)
   \<and> (baselines st param = Some (bs, bl, sn) \<longrightarrow>
        SQLi_scan_param E m url param findings st =
          (case error_loop E url param bs bl error_payloads findings st of (f1, s1) \<Rightarrow>
           case boolean_loop E url param bs bl sn boolean_pairs f1 s1 of (f2, s2) \<Rightarrow>
           case time_loop E url param bs bl time_payloads f2 s2 of (f3, s3) \<Rightarrow>
           union_loop E url param bs bl sn [1..m] f3 s3))"
proof -
  have 1: "baselines st param = Some b \<longrightarrow> SQLi_baseline E url param st = (b, st)"
    by (simp add: baseline_hit)
  have 2: "baselines st param = None \<and> net E (world st) (GET url) = ((out, dt), w') \<longrightarrow>
        fst (SQLi_baseline E url param st) = snapshot_of out
        \<and> sent (snd (SQLi_baseline E url param st)) = sent st @ [GET url]
        \<and> baselines (snd (SQLi_baseline E url param st)) = (baselines st)(param \<mapsto> snapshot_of out)"
    using baseline_miss [of st param E url out dt w'] by blast
  have 3: "baselines (snd (SQLi_scan_param E m url param findings st)) =
        (baselines st)(param \<mapsto> fst (SQLi_baseline E url param st))"
    by (rule scan_param_baselines)
  have 4: "baselines st param = Some b \<longrightarrow>
        baselines (snd (SQLi_scan_get_params E m url' ps st)) param = Some b"
    using params_loop_keeps_baseline [of st param b E m url' ps "[]"]
    by (simp add: SQLi_scan_get_params_def)
  have 5: "baselines st param = Some (bs, bl, sn) \<longrightarrow>
        SQLi_scan_param E m url param findings st =
          (case error_loop E url param bs bl error_payloads findings st of (f1, s1) \<Rightarrow>
           case boolean_loop E url param bs bl sn boolean_pairs f1 s1 of (f2, s2) \<Rightarrow>
           case time_loop E url param bs bl time_payloads f2 s2 of (f3, s3) \<Rightarrow>
           union_loop E url param bs bl sn [1..m] f3 s3)"
    by (simp add: SQLi_scan_param_def baseline_hit)
  from 1 2 3 4 5 show ?thesis by blast
qed

lemma time_loop_sends_first:
  assumes "time_loop E url p bs bl (a # rest) findings st = (fs, st')"
  shows "GET (with_param E url p (url_safe E a)) \<in> set (sent st')"
proof -
  obtain r st1 where f: "SQLi_fetch E (with_param E url p (url_safe E a)) ''GET'' None st = (r, st1)"
    by (cases "SQLi_fetch E (with_param E url p (url_safe E a)) ''GET'' None st")
  from fetch_sent [of E "with_param E url p (url_safe E a)" "''GET''" None st] f
  have in1: "GET (with_param E url p (url_safe E a)) \<in> set (sent st1)"
    by (simp add: upper_GET)
  have "extends st1 st'"
    using assms f
    by (auto simp: Let_def extends_refl split: prod.splits if_splits
        dest!: report_extends time_loop_extends)
  with in1 show ?thesis by (auto simp: extends_def)
qed

lemma ssti_reflective_sent:
  "sent (snd (ssti_reflective_loop E url param probes findings st)) =
     sent st @ map (\<lambda>(payload, marker). GET (with_param E url param (url_safe E payload))) probes"
proof (induction probes arbitrary: findings st)
  case Nil
  then show ?case by simp
next
  case (Cons a probes)
  obtain payload marker where a: "a = (payload, marker)" by (cases a)
  show ?case unfolding a
    by (auto simp: Let_def session_request_def Cons.IH
        split: prod.splits option.splits http_outcome.splits)
qed

text \<open>
  C4, amended. The timing procedure is gated by the aggressive flag in the command-injection
  and SSTI scanners: with the flag disabled \<open>CMDIScanner.scan_timing_param\<close> returns no
  finding and sends no request, and \<open>SSTIScanner.scan_param\<close> is its reflective loop alone
  and sends exactly the five reflective probes. The SQLi scanner has no aggressive flag:
  every per-parameter scan sends its first time payload.
\<close>

theorem timing_probes_gated_in_cmdi_and_ssti:
  "CMDi_scan_timing_param E False url param method data st = ([], st)
   \<and> SSTI_scan_param E False url param st = ssti_reflective_loop E url param REFLECTIVE_PROBES [] st
   \<and> sent (snd (SSTI_scan_param E False url param st)) =
        sent st @ map (\<lambda>(payload, marker). GET (with_param E url param (url_safe E payload)))
                    REFLECTIVE_PROBES
   \<and> GET (with_param E url param (url_safe E (hd time_payloads)))
        \<in> set (sent (snd (SQLi_scan_param E m url param findings st')))"
proof -
  have 1: "CMDi_scan_timing_param E False url param method data st = ([], st)"
    by (simp add: CMDi_scan_timing_param_def)
  have 2: "SSTI_scan_param E False url param st = ssti_reflective_loop E url param REFLECTIVE_PROBES [] st"
    by (simp add: SSTI_scan_param_def split: prod.splits)
  have 3: "sent (snd (SSTI_scan_param E False url param st)) =
        sent st @ map (\<lambda>(payload, marker). GET (with_param E url param (url_safe E payload)))
                    REFLECTIVE_PROBES"
    unfolding 2 by (rule ssti_reflective_sent)
  obtain bs bl sn st0 where b: "SQLi_baseline E url param st' = ((bs, bl, sn), st0)"
    by (metis prod.exhaust)
  obtain f1 s1 where e: "error_loop E url param bs bl error_payloads findings st0 = (f1, s1)"
    by (cases "error_loop E url param bs bl error_payloads findings st0")
  obtain f2 s2 where bo: "boolean_loop E url param bs bl sn boolean_pairs f1 s1 = (f2, s2)"
    by (cases "boolean_loop E url param bs bl sn boolean_pairs f1 s1")
  obtain f3 s3 where t: "time_loop E url param bs bl time_payloads f2 s2 = (f3, s3)"
    by (cases "time_loop E url param bs bl time_payloads f2 s2")
  obtain f4 s4 where u: "union_loop E url param bs bl sn [1..m] f3 s3 = (f4, s4)"
    by (cases "union_loop E url param bs bl sn [1..m] f3 s3")
  have r: "snd (SQLi_scan_param E m url param findings st') = s4"
    by (simp add: SQLi_scan_param_def b e bo t u)
  obtain a rest where tp: "time_payloads = a # rest" by (simp add: time_payloads_def)
  from time_loop_sends_first [OF t [unfolded tp]]
  have "GET (with_param E url param (url_safe E (hd time_payloads))) \<in> set (sent s3)"
    by (simp add: tp)
  with union_loop_extends [OF u]
  have 4: "GET (with_param E url param (url_safe E (hd time_payloads)))
        \<in> set (sent (snd (SQLi_scan_param E m url param findings st')))"
    by (auto simp: r extends_def)
  from 1 2 3 4 show ?thesis by blast
qed

section \<open>Transport failures\<close>












section \<open>Evaluated scenarios\<close>

lemma scan_single_param:
  "SQLi_scan_get_params E m url [p] st = SQLi_scan_param E m url p [] st"
  by (simp add: SQLi_scan_get_params_def split: prod.splits)

lemma eval_A_baseline:
  "fst (SQLi_baseline (demo_env script_A) demo_url ''id'' (SQLiScanner_init 0)) = (200, 7, ''Welcome'')"
  by (simp add: SQLi_baseline_def SQLiScanner_init_def SQLi_fetch_def session_request_def
      demo_env_def scripted_net_def script_A_def upper_GET)

lemma eval_A_findings:
  "map (\<lambda>f. (f_parameter f, f_technique f, f_severity f, f_evidence f))
     (fst (SQLi_scan_param (demo_env script_A) 6 demo_url ''id'' [] (SQLiScanner_init 0)))
   = [(''id'', ''error-based'', ''High'', ''SQL syntax ... MySQL'')]"
  by code_simp

lemma eval_A_sent:
  "sent (snd (SQLi_scan_param (demo_env script_A) 6 demo_url ''id'' [] (SQLiScanner_init 0))) ! 9
   = GET (''http://t/item?id=1'' @ SQ @ '' OR SLEEP(5)-- '')"
  by code_simp

lemma eval_B_findings:
  "map (\<lambda>f. (f_parameter f, f_title f, f_technique f, f_severity f))
     (fst (SQLi_scan_param (demo_env script_B) 6 demo_url ''id'' [] (SQLiScanner_init 0)))
   = [(''id'', ''SQL Injection (Error-based)'', ''error-based'', ''High''),
      (''id'', ''SQL Injection (Boolean-based)'', ''boolean-blind'', ''Medium''),
      (''id'', ''SQL Injection (Time-based)'', ''time-blind'', ''High''),
      (''id'', ''SQL Injection (UNION-based, columns guess)'', ''union-based (cols~1)'', ''Medium'')]"
  by code_simp

lemma eval_D:
  "sent (snd (SQLi_baseline (demo_env script_D) ''http://b.example/'' ''id''
           (snd (SQLi_baseline (demo_env script_D) ''http://a.example/'' ''id'' (SQLiScanner_init 0)))))
     = [GET ''http://a.example/'']
   \<and> fst (SQLi_baseline (demo_env script_D) ''http://b.example/'' ''id''
           (snd (SQLi_baseline (demo_env script_D) ''http://a.example/'' ''id'' (SQLiScanner_init 0))))
     = (200, 6, ''page A'')"
  by (simp add: SQLi_baseline_def SQLiScanner_init_def SQLi_fetch_def session_request_def
      demo_env_def scripted_net_def script_D_def upper_GET)

text \<open>
  The decision taken for one boolean pair whose two requests both came back with a non-zero
  status, in the SQLi scanner and in the NoSQLi scanner.
\<close>

lemma SQLi_boolean_pair_step:
  assumes "SQLi_fetch E (with_param E url p (url_safe E t)) ''GET'' None st = (((st_t, body_t, h1), d1), st1)"
    and "SQLi_fetch E (with_param E url p (url_safe E f_val)) ''GET'' None st1 = (((st_f, body_f, h2), d2), st2)"
    and "st_t \<noteq> 0" and "st_f \<noteq> 0"
  shows "fst (boolean_loop E url p bs bl sn ((t, f_val) # rest) findings st) =
           (if differ E body_t body_f < 0.60
               \<and> (differ E body_t sn > 0.85 \<or> differ E body_f sn > 0.85)
            then findings @
                 [fst (SQLi_report ''SQL Injection (Boolean-based)''
                         (with_param E url p (url_safe E t) @ ''  vs  '' @ with_param E url p (url_safe E f_val))
                         p ''boolean-blind''
                         (''similarity(true,false)='' @ fmt2f E (differ E body_t body_f)
                            @ '', sim(true,base)='' @ fmt2f E (differ E body_t sn)
                            @ '', sim(false,base)='' @ fmt2f E (differ E body_f sn))
                         bs (Tuple2 st_t st_f) bl (Tuple2 (length body_t) (length body_f)) None None st2)]
            else fst (boolean_loop E url p bs bl sn rest findings st2))"
  using assms by (auto simp: Let_def split: prod.splits)

lemma NoSQLi_boolean_pair_step:
  assumes "NoSQLi_get E (with_param E url p (url_safe E t)) st = ((st_t, body_t), st1)"
    and "NoSQLi_get E (with_param E url p (url_safe E f_val)) st1 = ((st_f, body_f), st2)"
    and "st_t \<noteq> 0" and "st_f \<noteq> 0"
  shows "fst (nosql_boolean_loop E url p st_b body_b ((t, f_val) # rest) findings st) =
           (if differ E body_t body_f < 0.60
               \<and> (differ E body_t body_b > 0.85 \<or> differ E body_f body_b > 0.85 \<or> st_t \<noteq> st_f)
            then findings @
                 [fst (NoSQLi_report ''NoSQL Injection (boolean/ops, GET)'' p
                         (with_param E url p (url_safe E t) @ '' vs '' @ with_param E url p (url_safe E f_val))
                         (''similarity(true,false)='' @ fmt2f E (differ E body_t body_f)
                            @ ''; status('' @ str_int st_t @ '','' @ str_int st_f @ '')'')
                         st_b (Tuple2 st_t st_f) (length body_b)
                         (Tuple2 (length body_t) (length body_f)) None st2)]
            else fst (nosql_boolean_loop E url p st_b body_b rest findings st2))"
  using assms by (auto simp: Let_def split: prod.splits)

text \<open>
  C1. The boolean-pair rule of the spec has three alternatives beside \<open>sim_tf < 0.60\<close>:
  the true body resembles the baseline, the false body resembles it, or the two status
  codes differ. The NoSQLi scanner tests all three; the SQLi scanner omits the status
  comparison. With baseline \<open>Home\<close>, the true payload answered by 200
  \<open>Results: 3 rows\<close> and the false payload by 500 \<open>Server error\<close> (all similarities 0 under
  the fallback differ), the NoSQLi procedure reports the pair and the SQLi procedure reports
  nothing.
\<close>

theorem boolean_pair_rule_differs_between_SQLi_and_NoSQLi:
  "fst (boolean_loop (demo_env script_C) demo_url ''id'' 200 4 ''Home'' boolean_pairs []
          (SQLiScanner_init 0)) = []
   \<and> map (\<lambda>f. (n_parameter f, n_title f, n_status f))
        (fst (nosql_boolean_loop (demo_env script_C) demo_url ''id'' 200 ''Home'' nosql_boolean_pairs []
               (SQLiScanner_init 0)))
     = [(''id'', ''NoSQL Injection (boolean/ops, GET)'', Tuple2 200 500)]"
  by code_simp

lemma boolean_pair_spec_scenario:
  "map f_technique (fst (boolean_loop (demo_env script_E) demo_url ''id'' 200 1000 (replicate 1000 CHR ''A'')
          boolean_pairs [] (SQLiScanner_init 0))) = [''boolean-blind'']
   \<and> map n_title
        (fst (nosql_boolean_loop (demo_env script_E) demo_url ''id'' 200 (replicate 1000 CHR ''A'')
               nosql_boolean_pairs [] (SQLiScanner_init 0)))
     = [''NoSQL Injection (boolean/ops, GET)'']"
  by code_simp



theorem SQLi_union_findings_are_medium_witness:
  "f_title (fst (SQLi_scan_get_params (demo_env script_B) 6 demo_url [''id''] (SQLiScanner_init 0)) ! 3)
     = ''SQL Injection (UNION-based, columns guess)''
   \<and> f_technique (fst (SQLi_scan_get_params (demo_env script_B) 6 demo_url [''id''] (SQLiScanner_init 0)) ! 3)
     = ''union-based (cols~1)''
   \<and> f_severity (fst (SQLi_scan_get_params (demo_env script_B) 6 demo_url [''id''] (SQLiScanner_init 0)) ! 3)
     = ''Medium''"
proof -
  let ?fs = "fst (SQLi_scan_get_params (demo_env script_B) 6 demo_url [''id''] (SQLiScanner_init 0))"
  have e: "map (\<lambda>f. (f_parameter f, f_title f, f_technique f, f_severity f)) ?fs
   = [(''id'', ''SQL Injection (Error-based)'', ''error-based'', ''High''),
      (''id'', ''SQL Injection (Boolean-based)'', ''boolean-blind'', ''Medium''),
      (''id'', ''SQL Injection (Time-based)'', ''time-blind'', ''High''),
      (''id'', ''SQL Injection (UNION-based, columns guess)'', ''union-based (cols~1)'', ''Medium'')]"
    using eval_B_findings by (simp add: scan_single_param)
  from arg_cong [OF e, of length] have l: "length ?fs = 4" by simp
  from arg_cong [OF e, of "\<lambda>xs. xs ! 3"] l
  have t: "f_title (?fs ! 3) = ''SQL Injection (UNION-based, columns guess)''"
    and q: "f_technique (?fs ! 3) = ''union-based (cols~1)''"
    by simp_all
  from l have mem: "?fs ! 3 \<in> set ?fs" by simp
  from SQLi_union_findings_are_medium
         [where E = "demo_env script_B" and m = 6 and url = demo_url and params = "[''id'']"
            and st' = "SQLiScanner_init 0"]
    mem t
  have "f_severity (?fs ! 3) = ''Medium''" by blast
  with t q show ?thesis by simp
qed

theorem SQLi_error_signature_first_match_witness:
  "fst (SQLi_baseline (demo_env script_A) demo_url ''id'' (SQLiScanner_init 0)) = (200, 7, ''Welcome'')
   \<and> map (\<lambda>f. (f_parameter f, f_technique f, f_severity f, f_evidence f))
        (fst (SQLi_scan_get_params (demo_env script_A) 6 demo_url [''id''] (SQLiScanner_init 0)))
      = [(''id'', ''error-based'', ''High'', ''SQL syntax ... MySQL'')]
   \<and> f_severity (error_finding ''id'' 200 7 (demo_url, 200, ''Error: SQL syntax ... MySQL'')) = ''High''"
  using SQLi_error_signature_first_match [OF eval_A_baseline,
          where r = "(demo_url, 200, ''Error: SQL syntax ... MySQL'')" and pays = error_payloads
            and findings = "[]" and m = 6]
    eval_A_baseline eval_A_findings
  by (simp add: scan_single_param)

text \<open>
  C4 as stated fails for the SQLi scanner, which has no aggressive flag: the tenth request
  of an ordinary scan of one parameter carries the first time payload.
\<close>

theorem SQLi_time_payloads_always_sent_counterexample:
  "sent (snd (SQLi_scan_get_params (demo_env script_A) 6 demo_url [''id''] (SQLiScanner_init 0))) ! 9
     = GET (with_param (demo_env script_A) demo_url ''id'' (url_safe (demo_env script_A) (hd time_payloads)))"
  using eval_A_sent by (simp add: scan_single_param demo_env_def time_payloads_def demo_url_def)

text \<open>
  C3 as stated fails: after a baseline for parameter \<open>id\<close> on one target, the baseline
  call for \<open>id\<close> on another target sends no request (the only request ever sent went to
  the first target) and returns the first target's snapshot.
\<close>

theorem SQLi_baseline_keyed_by_parameter_counterexample:
  "sent (snd (SQLi_baseline (demo_env script_D) ''http://b.example/'' ''id''
           (snd (SQLi_baseline (demo_env script_D) ''http://a.example/'' ''id'' (SQLiScanner_init 0)))))
     = [GET ''http://a.example/'']
   \<and> fst (SQLi_baseline (demo_env script_D) ''http://b.example/'' ''id''
           (snd (SQLi_baseline (demo_env script_D) ''http://a.example/'' ''id'' (SQLiScanner_init 0))))
     = (200, 6, ''page A'')"
  by (rule eval_D)

theorem SQLi_baseline_cached_per_parameter_witness:
  "baselines (SQLiScanner_init (0::nat)) ''id'' = None
   \<and> net (demo_env script_D) (world (SQLiScanner_init (0::nat))) (GET ''http://a.example/'')
       = ((Response 200 ''page A'' [], 1/10), 1)
   \<and> fst (SQLi_baseline (demo_env script_D) ''http://a.example/'' ''id'' (SQLiScanner_init 0))
       = (200, 6, ''page A'')
   \<and> sent (snd (SQLi_baseline (demo_env script_D) ''http://a.example/'' ''id'' (SQLiScanner_init 0)))
       = [GET ''http://a.example/'']"
proof -
  have b: "baselines (SQLiScanner_init (0::nat)) ''id'' = None"
    by (simp add: SQLiScanner_init_def)
  have n: "net (demo_env script_D) (world (SQLiScanner_init (0::nat))) (GET ''http://a.example/'')
       = ((Response 200 ''page A'' [], 1/10), 1)"
    by (simp add: demo_env_def scripted_net_def script_D_def SQLiScanner_init_def)
  have s: "sent (SQLiScanner_init (0::nat)) = []" by (simp add: SQLiScanner_init_def)
  from SQLi_baseline_cached_per_parameter
         [of "SQLiScanner_init (0::nat)" "''id''" "(0, 0, [])" "demo_env script_D" "''http://a.example/''"
             "Response 200 ''page A'' []" "1/10" 1]
    b n s
  show ?thesis by (simp add: snapshot_of_def)
qed

section \<open>Properties of the scheduler\<close>

lemma count_list_update:
  "i < length xs \<Longrightarrow>
   count_list (xs[i := y]) a + (if xs ! i = a then 1 else 0) = count_list xs a + (if y = a then 1 else 0)"
proof (induction xs arbitrary: i)
  case Nil
  then show ?case by simp
next
  case (Cons x xs)
  show ?case
  proof (cases i)
    case 0
    then show ?thesis by simp
  next
    case (Suc j)
    with Cons.prems have "j < length xs" by simp
    from Cons.IH [OF this] show ?thesis by (auto simp: Suc split: if_splits)
  qed
qed

lemma task_inv_begin: "task_inv t0 Waiting t \<Longrightarrow> task_inv t0 Running (run_begin c t)"
  unfolding task_inv_def by auto

lemma task_inv_end: "task_inv t0 Running t \<Longrightarrow> task_inv t0 Done (run_end c t)"
  unfolding task_inv_def ScanTask_run_def by auto

lemma count_list_pos: "i < length xs \<Longrightarrow> xs ! i = a \<Longrightarrow> 0 < count_list xs a"
  by (metis count_list_0_iff gr0I nth_mem)

lemma count_list_replicate_other: "a \<noteq> b \<Longrightarrow> count_list (replicate n a) b = 0"
  by (induction n) auto

lemma sched_inv_start:
  assumes "run_all_start now sch = Inr s0"
  shows "sched_inv sch s0"
proof -
  from assms have nn: "\<not> max_concurrent_tasks sch < 0"
    and s0: "s0 = \<lparr> sched = sch, phases = replicate (length (tasks sch)) Waiting,
                 semaphore = nat (max_concurrent_tasks sch), clock = now \<rparr>"
    by (auto simp: run_all_start_def split: if_splits)
  show ?thesis
    by (simp add: s0 sched_inv_def task_inv_def count_list_replicate_other)
qed

lemma sched_inv_step:
  assumes inv: "sched_inv sch s" and st: "step e s = Some s'"
  shows "sched_inv sch s'"
proof (cases e)
  case (Acquire i)
  with st have i: "i < length (phases s)" and w: "phases s ! i = Waiting" and sem: "0 < semaphore s"
    and s': "s' = s\<lparr> sched := (sched s)\<lparr>tasks := (tasks (sched s))[i := run_begin (clock s) (tasks (sched s) ! i)]\<rparr>,
                    phases := (phases s)[i := Running],
                    semaphore := semaphore s - 1,
                    clock := Suc (clock s) \<rparr>"
    by (auto split: if_splits)
  from count_list_update [OF i, of Running Running] w
  have c: "count_list ((phases s)[i := Running]) Running = Suc (count_list (phases s) Running)"
    by simp
  from inv have ti: "task_inv (tasks sch ! i) Waiting (tasks (sched s) ! i)"
    using i w by (auto simp: sched_inv_def)
  show ?thesis
    using inv i sem task_inv_begin [OF ti] unfolding sched_inv_def s'
    by (auto simp: c nth_list_update)
next
  case (Finish i)
  with st have i: "i < length (phases s)" and w: "phases s ! i = Running"
    and s': "s' = s\<lparr> sched := (sched s)\<lparr>tasks := (tasks (sched s))[i := run_end (clock s) (tasks (sched s) ! i)]\<rparr>,
                    phases := (phases s)[i := Done],
                    semaphore := semaphore s + 1,
                    clock := Suc (clock s) \<rparr>"
    by (auto split: if_splits)
  from count_list_update [OF i, of Done Running] w
  have c: "Suc (count_list ((phases s)[i := Done]) Running) = count_list (phases s) Running"
    by simp
  from inv have ti: "task_inv (tasks sch ! i) Running (tasks (sched s) ! i)"
    using i w by (auto simp: sched_inv_def)
  show ?thesis
    using inv i task_inv_end [OF ti] c unfolding sched_inv_def s'
    by (auto simp: nth_list_update)
qed

lemma sched_inv_exec:
  "sched_inv sch s \<Longrightarrow> exec es s = Some s' \<Longrightarrow> sched_inv sch s'"
proof (induction es arbitrary: s)
  case Nil
  then show ?case by simp
next
  case (Cons e es)
  then show ?case by (auto split: option.splits dest: sched_inv_step)
qed

lemma step_remaining:
  assumes "step e s = Some s'"
  shows "remaining s' < remaining s"
proof (cases e)
  case (Acquire i)
  with assms have i: "i < length (phases s)" and w: "phases s ! i = Waiting"
    and p: "phases s' = (phases s)[i := Running]"
    by (auto split: if_splits)
  from count_list_update [OF i, of Running Running] count_list_update [OF i, of Running Waiting] w
    count_list_pos [OF i w]
  show ?thesis by (simp add: remaining_def p)
next
  case (Finish i)
  with assms have i: "i < length (phases s)" and w: "phases s ! i = Running"
    and p: "phases s' = (phases s)[i := Done]"
    by (auto split: if_splits)
  from count_list_update [OF i, of Done Running] count_list_update [OF i, of Done Waiting] w
    count_list_pos [OF i w]
  show ?thesis by (simp add: remaining_def p)
qed

lemma sched_progress:
  assumes inv: "sched_inv sch s" and pos: "0 < max_concurrent_tasks sch"
    and nr: "\<not> run_all_returned s"
  shows "\<exists>e s'. step e s = Some s'"
proof -
  from nr obtain i where i: "i < length (phases s)" and nd: "phases s ! i \<noteq> Done"
    by (auto simp: run_all_returned_def list_all_length)
  show ?thesis
  proof (cases "count_list (phases s) Running = 0")
    case True
    with inv pos have sem: "0 < semaphore s" by (auto simp: sched_inv_def)
    from True i have "phases s ! i \<noteq> Running"
      using count_list_pos by fastforce
    with nd have "phases s ! i = Waiting" by (cases "phases s ! i") auto
    with i sem have "step (Acquire i) s \<noteq> None" by simp
    then show ?thesis by blast
  next
    case False
    then have "Running \<in> set (phases s)" by (simp add: count_list_0_iff)
    then obtain j where "j < length (phases s)" "phases s ! j = Running"
      by (auto simp: in_set_conv_nth)
    then have "step (Finish j) s \<noteq> None" by simp
    then show ?thesis by blast
  qed
qed

lemma exec_append: "exec (es @ fs) s = (case exec es s of None \<Rightarrow> None | Some s' \<Rightarrow> exec fs s')"
  by (induction es arbitrary: s) (auto split: option.splits)

lemma sched_completes:
  assumes pos: "0 < max_concurrent_tasks sch"
  shows "sched_inv sch s \<Longrightarrow> \<exists>es s'. exec es s = Some s' \<and> run_all_returned s'"
proof (induction "remaining s" arbitrary: s rule: less_induct)
  case less
  show ?case
  proof (cases "run_all_returned s")
    case True
    then have "exec [] s = Some s \<and> run_all_returned s" by simp
    then show ?thesis by blast
  next
    case False
    from sched_progress [OF less.prems pos False] obtain e s1 where st: "step e s = Some s1"
      by blast
    from less.hyps [OF step_remaining [OF st] sched_inv_step [OF less.prems st]]
    obtain es s' where "exec es s1 = Some s'" "run_all_returned s'" by blast
    with st have "exec (e # es) s = Some s' \<and> run_all_returned s'" by simp
    then show ?thesis by blast
  qed
qed

lemma task_inv_Done: "task_inv t0 Done t \<Longrightarrow> task_settled t0 t"
  by (auto simp: task_inv_def task_settled_def ScanTask_run_def run_begin_def run_end_def
      split: call_outcome.splits)

text \<open>
  C9. Scheduler failure isolation. \<open>ScanTask.run\<close> catches what the task's function raises:
  it records the exception on the task, marks the task completed and does not re-raise.
  Every run of \<open>run_all\<close> is a sequence of events (a task acquires the semaphore and
  starts; a running task finishes) from the start state. For a scheduler with at least one
  concurrency slot, in every state such a run reaches: while some task is not done another
  event is possible (no failure blocks the others), every event decreases the number of
  remaining events, so a run that returns exists and no run goes on for ever; every task that
  is done is completed with its own result or exception recorded, whatever the other tasks
  did; and when \<open>run_all\<close> has returned no task is pending.
  The model covers exceptions derived from \<open>Exception\<close>, which is what
  \<^verbatim>\<open>except Exception\<close> catches.
\<close>

theorem scheduler_failure_isolation:
  assumes "0 < max_concurrent_tasks sch"
    and "run_all_start now sch = Inr s0"
    and "exec es s0 = Some s"
  shows "(\<forall>t c c'. completed (ScanTask_run c c' t)
            \<and> (\<forall>e. func t = Raises e \<longrightarrow> exception (ScanTask_run c c' t) = Some e))
       \<and> (\<not> run_all_returned s \<longrightarrow> (\<exists>e s'. step e s = Some s'))
       \<and> (\<forall>e s'. step e s = Some s' \<longrightarrow> remaining s' < remaining s)
       \<and> (\<exists>es' s'. exec es' s = Some s' \<and> run_all_returned s')
       \<and> length (tasks (sched s)) = length (tasks sch)
       \<and> (\<forall>i < length (tasks sch). phases s ! i = Done \<longrightarrow>
             task_settled (tasks sch ! i) (tasks (sched s) ! i))
       \<and> (run_all_returned s \<longrightarrow> pending_tasks (sched s) = [])"
proof -
  have inv: "sched_inv sch s"
    using sched_inv_exec [OF sched_inv_start [OF assms(2)] assms(3)] .
  have a: "\<forall>t c c'. completed (ScanTask_run c c' t)
            \<and> (\<forall>e. func t = Raises e \<longrightarrow> exception (ScanTask_run c c' t) = Some e)"
    by (auto simp: ScanTask_run_def run_begin_def run_end_def split: call_outcome.splits)
  have b: "\<not> run_all_returned s \<longrightarrow> (\<exists>e s'. step e s = Some s')"
    using sched_progress [OF inv assms(1)] by blast
  have c: "\<forall>e s'. step e s = Some s' \<longrightarrow> remaining s' < remaining s"
    using step_remaining by blast
  have d: "\<exists>es' s'. exec es' s = Some s' \<and> run_all_returned s'"
    using sched_completes [OF assms(1) inv] .
  have e: "length (tasks (sched s)) = length (tasks sch)"
    using inv by (simp add: sched_inv_def)
  have f: "\<forall>i < length (tasks sch). phases s ! i = Done \<longrightarrow>
             task_settled (tasks sch ! i) (tasks (sched s) ! i)"
    using inv task_inv_Done by (fastforce simp: sched_inv_def)
  have g: "run_all_returned s \<longrightarrow> pending_tasks (sched s) = []"
  proof
    assume r: "run_all_returned s"
    have "\<forall>t \<in> set (tasks (sched s)). completed t"
    proof
      fix t assume "t \<in> set (tasks (sched s))"
      then obtain i where i: "i < length (tasks (sched s))" and t: "t = tasks (sched s) ! i"
        by (auto simp: in_set_conv_nth)
      from i e have i': "i < length (tasks sch)" by simp
      with inv have "i < length (phases s)" by (simp add: sched_inv_def)
      with r have "phases s ! i = Done" by (simp add: run_all_returned_def list_all_length)
      with f i' have "task_settled (tasks sch ! i) (tasks (sched s) ! i)" by blast
      then show "completed t" by (simp add: t task_settled_def)
    qed
    then show "pending_tasks (sched s) = []"
      by (auto simp: pending_tasks_def filter_empty_conv)
  qed
  from a b c d e f g show ?thesis by blast
qed

lemma demo_start: "run_all_start 0 demo_sched = Inr \<lparr> sched = demo_sched, phases = [Waiting, Waiting], semaphore = 1, clock = 0 \<rparr>"
  by (simp add: run_all_start_def demo_sched_def add_task_def Scheduler_init_def ScanTask_init_def)

lemma demo_exec: "exec [Acquire 0, Finish 0, Acquire 1, Finish 1] \<lparr> sched = demo_sched, phases = [Waiting, Waiting], semaphore = 1, clock = 0 \<rparr> = Some demo_final"
  by (simp add: demo_sched_def demo_final_def add_task_def Scheduler_init_def ScanTask_init_def run_begin_def run_end_def)

lemma demo_blocked: "step (Acquire 1) (the (exec [Acquire 0] \<lparr> sched = demo_sched, phases = [Waiting, Waiting], semaphore = 1, clock = 0 \<rparr>)) = None"
  by (simp add: demo_sched_def add_task_def Scheduler_init_def ScanTask_init_def run_begin_def run_end_def)

theorem scheduler_failure_isolation_witness:
  "0 < max_concurrent_tasks demo_sched
   \<and> run_all_start 0 demo_sched = Inr \<lparr> sched = demo_sched, phases = [Waiting, Waiting], semaphore = 1, clock = 0 \<rparr>
   \<and> exec [Acquire 0, Finish 0, Acquire 1, Finish 1] \<lparr> sched = demo_sched, phases = [Waiting, Waiting], semaphore = 1, clock = 0 \<rparr> = Some demo_final
   \<and> run_all_returned demo_final
   \<and> pending_tasks (sched demo_final) = []
   \<and> task_settled (tasks demo_sched ! 0) (tasks (sched demo_final) ! 0)
   \<and> exception (tasks (sched demo_final) ! 0) = Some ''boom''
   \<and> result (tasks (sched demo_final) ! 1) = Some 3"
proof -
  have p: "0 < max_concurrent_tasks demo_sched"
    by (simp add: demo_sched_def add_task_def Scheduler_init_def)
  have r: "run_all_returned demo_final" by (simp add: run_all_returned_def demo_final_def)
  have l: "length (tasks demo_sched) = 2" by (simp add: demo_sched_def add_task_def Scheduler_init_def)
  have d: "phases demo_final ! 0 = Done" by (simp add: demo_final_def)
  from scheduler_failure_isolation [OF p demo_start demo_exec] r l d
  have "pending_tasks (sched demo_final) = []"
    and "task_settled (tasks demo_sched ! 0) (tasks (sched demo_final) ! 0)"
    by auto
  with p r demo_start demo_exec show ?thesis
    by (simp add: demo_final_def)
qed

end
